theory Spec2Isabelle
  imports Complex_Main
begin

section \<open>JavaScript values used by the search engine\<close>

text \<open>
  Strings are lists of code units; the model covers the code units below 256 (Latin-1),
  which is what \<^typ>\<open>char\<close> holds. A string argument that may be \<open>undefined\<close> or
  \<open>null\<close> is a \<^typ>\<open>string option\<close>, \<open>None\<close> being the absent value. Finite numbers are
  reals: rounding to double precision is not modelled. The two places where the source can
  leave the finite numbers (a division by \<open>Math.log(1)\<close>, \<open>parseFloat\<close> of a malformed
  string) use the type \<open>jsnum\<close> below.
\<close>

text \<open>\<open>String.prototype.toLowerCase\<close> on one code unit below 256: A-Z and the
  Latin-1 capitals 0xC0-0xDE (0xD7, the multiplication sign, apart) move up by 32.\<close>

definition toLowerCase_char :: "char \<Rightarrow> char" where
  "toLowerCase_char c =
     (let n = (of_char c :: nat)
      in if (65 \<le> n \<and> n \<le> 90) \<or> (192 \<le> n \<and> n \<le> 222 \<and> n \<noteq> 215)
         then char_of (n + 32) else c)"

definition toLowerCase :: "string \<Rightarrow> string" where
  "toLowerCase s = map toLowerCase_char s"

text \<open>\<open>str.replace(/[^a-zA-Z0-9]/g, '')\<close>\<close>

definition isAlnum :: "char \<Rightarrow> bool" where
  "isAlnum c =
     (let n = (of_char c :: nat)
      in (97 \<le> n \<and> n \<le> 122) \<or> (65 \<le> n \<and> n \<le> 90) \<or> (48 \<le> n \<and> n \<le> 57))"

definition stripNonAlnum :: "string \<Rightarrow> string" where
  "stripNonAlnum s = filter isAlnum s"

text \<open>\<open>s.substring(a, b)\<close> for non-negative integer arguments: both are clamped to the
  length and swapped when out of order.\<close>

definition substring :: "string \<Rightarrow> nat \<Rightarrow> nat \<Rightarrow> string" where
  "substring s a b =
     (let a' = min a (length s); b' = min b (length s);
          lo = min a' b'; hi = max a' b'
      in take (hi - lo) (drop lo s))"

text \<open>\<open>s.includes(p)\<close>: \<open>p\<close> occurs in \<open>s\<close> as a contiguous run.\<close>

fun str_includes :: "string \<Rightarrow> string \<Rightarrow> bool" where
  "str_includes [] p = (p = [])"
| "str_includes (c # cs) p = (take (length p) (c # cs) = p \<or> str_includes cs p)"

text \<open>\<open>s.indexOf(c)\<close> for a one-character \<open>c\<close>; \<open>None\<close> is the source's \<open>-1\<close>.\<close>

fun indexOf :: "string \<Rightarrow> char \<Rightarrow> nat option" where
  "indexOf [] c = None"
| "indexOf (x # xs) c =
     (if x = c then Some 0 else (case indexOf xs c of None \<Rightarrow> None | Some k \<Rightarrow> Some (Suc k)))"

text \<open>\<open>str?.length || 0\<close>\<close>

definition length_or_0 :: "string option \<Rightarrow> nat" where
  "length_or_0 str = (case str of None \<Rightarrow> 0 | Some s \<Rightarrow> length s)"

text \<open>\<open>!str\<close>: true of \<open>undefined\<close>, \<open>null\<close> and the empty string.\<close>

definition falsy :: "string option \<Rightarrow> bool" where
  "falsy str = (case str of None \<Rightarrow> True | Some s \<Rightarrow> s = [])"

section \<open>PhoneticAdjuster\<close>

definition isVowel :: "char \<Rightarrow> bool" where
  "isVowel c = (c \<in> set ''aeiouAEIOU'')"

definition keyboard :: "string list" where
  "keyboard = [''qwertyuiop'', ''asdfghjkl'', ''zxcvbnm'']"

text \<open>One round of the loop over the keyboard rows: \<open>pos1\<close> and \<open>pos2\<close> are
  \<open>None\<close> for \<open>null\<close> and \<open>Some (row, col)\<close> otherwise.\<close>

definition keyboard_row_step ::
  "char \<Rightarrow> char \<Rightarrow> nat \<Rightarrow> (nat \<times> nat) option \<times> (nat \<times> nat) option
     \<Rightarrow> (nat \<times> nat) option \<times> (nat \<times> nat) option" where
  "keyboard_row_step char1 char2 row ps =
     (let col1 = indexOf (keyboard ! row) (toLowerCase_char char1);
          col2 = indexOf (keyboard ! row) (toLowerCase_char char2);
          pos1 = (case col1 of Some c \<Rightarrow> Some (row, c) | None \<Rightarrow> fst ps);
          pos2 = (case col2 of Some c \<Rightarrow> Some (row, c) | None \<Rightarrow> snd ps)
      in (pos1, pos2))"

definition getKeyboardDistance :: "char \<Rightarrow> char \<Rightarrow> real" where
  "getKeyboardDistance char1 char2 =
     (case fold (keyboard_row_step char1 char2) [0..<length keyboard] (None, None) of
        (Some (r1, c1), Some (r2, c2)) \<Rightarrow>
          \<bar>real r1 - real r2\<bar> + \<bar>real c1 - real c2\<bar>
      | _ \<Rightarrow> 5)"

definition phoneticGroups :: "(string \<times> string) list" where
  "phoneticGroups =
     [(''ph'', ''f''), (''ck'', ''k''), (''qu'', ''kw''), (''x'', ''ks''),
      (''wr'', ''r''), (''kn'', ''n''), (''gn'', ''n''), (''wh'', ''w''),
      (''gh'', ''g''), (''mb'', ''m''), (''ps'', ''s''), (''pn'', ''n'')]"

definition phonetic_group_step :: "string \<Rightarrow> string \<Rightarrow> string \<times> string \<Rightarrow> real \<Rightarrow> real" where
  "phonetic_group_step sub1 sub2 g cost =
     (let cost1 = (if str_includes sub1 (fst g) \<and> str_includes sub2 (snd g) then cost * 0.8 else cost);
          cost2 = (if str_includes sub2 (fst g) \<and> str_includes sub1 (snd g) then cost1 * 0.8 else cost1)
      in cost2)"

definition phonetic_char_step :: "string \<Rightarrow> string \<Rightarrow> nat \<Rightarrow> real \<Rightarrow> real" where
  "phonetic_char_step sub1 sub2 i cost =
     (let char1 = sub1 ! i; char2 = sub2 ! i;
          cost1 = (if isVowel char1 \<and> isVowel char2 then cost * 0.9 else cost);
          keyboardDistance = getKeyboardDistance char1 char2
      in cost1 + keyboardDistance * 0.1)"

definition getPhoneticSimilarity :: "string \<Rightarrow> string \<Rightarrow> real" where
  "getPhoneticSimilarity sub1 sub2 =
     (if sub1 = [] \<or> sub2 = [] then 10
      else
        let cost0 = \<bar>real (length sub1) - real (length sub2)\<bar>;
            cost1 = fold (phonetic_group_step sub1 sub2) phoneticGroups cost0
        in fold (phonetic_char_step sub1 sub2) [0..<min (length sub1) (length sub2)] cost1)"

section \<open>EditDistanceCalculator\<close>

type_synonym matrix = "real list list"

definition mget :: "matrix \<Rightarrow> nat \<Rightarrow> nat \<Rightarrow> real" where
  "mget m i j = m ! i ! j"

definition mset :: "matrix \<Rightarrow> nat \<Rightarrow> nat \<Rightarrow> real \<Rightarrow> matrix" where
  "mset m i j v = m[i := (m ! i)[j := v]]"

text \<open>\<open>Array(len1 + 1).fill(null).map(() => Array(len2 + 1).fill(0))\<close> and the two
  loops that write the first column and the first row.\<close>

definition init_matrix :: "nat \<Rightarrow> nat \<Rightarrow> matrix" where
  "init_matrix len1 len2 =
     (let m0 = replicate (len1 + 1) (replicate (len2 + 1) 0);
          m1 = fold (\<lambda>i m. mset m i 0 (real i)) [0..<len1 + 1] m0
      in fold (\<lambda>j m. mset m 0 j (real j)) [0..<len2 + 1] m1)"

text \<open>The body of the inner loop, for the cell \<open>(i, j)\<close> with \<open>1 \<le> i\<close> and \<open>1 \<le> j\<close>.\<close>

definition fill_cell :: "string \<Rightarrow> string \<Rightarrow> nat \<Rightarrow> nat \<Rightarrow> matrix \<Rightarrow> matrix" where
  "fill_cell s1 s2 i j m =
     (let cost = (if s1 ! (i - 1) = s2 ! (j - 1) then 0 else 1);
          deletion = mget m (i - 1) j + 1;
          insertion = mget m i (j - 1) + 1;
          substitution = mget m (i - 1) (j - 1) + cost;
          m1 = mset m i j (min deletion (min insertion substitution));
          m2 = (if i > 1 \<and> j > 1 \<and> s1 ! (i - 1) = s2 ! (j - 2) \<and> s1 ! (i - 2) = s2 ! (j - 1)
                then mset m1 i j (min (mget m1 i j) (mget m1 (i - 2) (j - 2) + cost))
                else m1)
      in if i mod 3 = 0 \<and> j mod 3 = 0 \<and> i > 2 \<and> j > 2
         then let phoneticCost =
                    getPhoneticSimilarity (substring s1 (i - 3) i) (substring s2 (j - 3) j)
              in mset m2 i j (min (mget m2 i j) (mget m2 (i - 3) (j - 3) + phoneticCost))
         else m2)"

definition fill_row :: "string \<Rightarrow> string \<Rightarrow> nat \<Rightarrow> matrix \<Rightarrow> matrix" where
  "fill_row s1 s2 i m = fold (fill_cell s1 s2 i) [1..<length s2 + 1] m"

definition fill_matrix :: "string \<Rightarrow> string \<Rightarrow> matrix" where
  "fill_matrix s1 s2 =
     fold (fill_row s1 s2) [1..<length s1 + 1] (init_matrix (length s1) (length s2))"

text \<open>One round of the loop over the variations: \<open>matrix[len1][len2]\<close>.\<close>

definition variation_distance :: "string \<Rightarrow> string \<Rightarrow> real" where
  "variation_distance s1 s2 = mget (fill_matrix s1 s2) (length s1) (length s2)"

text \<open>\<open>minDistance\<close> starts at \<open>Infinity\<close>, so after the three rounds it is the minimum
  of the three distances, taken in the order of the loop.\<close>

definition calculateLevenshteinDistance :: "string option \<Rightarrow> string option \<Rightarrow> real" where
  "calculateLevenshteinDistance str1 str2 =
     (if falsy str1 \<or> falsy str2 then real (max (length_or_0 str1) (length_or_0 str2))
      else if str1 = str2 then 0
      else case (str1, str2) of
        (Some a, Some b) \<Rightarrow>
          min (min (variation_distance a b)
                   (variation_distance (toLowerCase a) (toLowerCase b)))
              (variation_distance (stripNonAlnum a) (stripNonAlnum b))
      | _ \<Rightarrow> real (max (length_or_0 str1) (length_or_0 str2)))"

subsection \<open>The recurrence that the matrix loops compute\<close>

text \<open>The loops fill the matrix row by row; the value they leave in the cell \<open>(i, j)\<close> is
  the function \<open>cell\<close> below. \<open>cell_value\<close> is one step of the recurrence over any
  reader \<open>rd\<close> of the cells filled so far, \<open>filled\<close> the loop invariant.\<close>

definition cell_cost :: "string \<Rightarrow> string \<Rightarrow> nat \<Rightarrow> nat \<Rightarrow> real" where
  "cell_cost s1 s2 i j = (if s1 ! (i - 1) = s2 ! (j - 1) then 0 else 1)"

definition transposed :: "string \<Rightarrow> string \<Rightarrow> nat \<Rightarrow> nat \<Rightarrow> bool" where
  "transposed s1 s2 i j =
     (i > 1 \<and> j > 1 \<and> s1 ! (i - 1) = s2 ! (j - 2) \<and> s1 ! (i - 2) = s2 ! (j - 1))"

definition at_block :: "nat \<Rightarrow> nat \<Rightarrow> bool" where
  "at_block i j = (i mod 3 = 0 \<and> j mod 3 = 0 \<and> i > 2 \<and> j > 2)"

definition block_cost :: "string \<Rightarrow> string \<Rightarrow> nat \<Rightarrow> nat \<Rightarrow> real" where
  "block_cost s1 s2 i j = getPhoneticSimilarity (substring s1 (i - 3) i) (substring s2 (j - 3) j)"

function cell :: "string \<Rightarrow> string \<Rightarrow> nat \<Rightarrow> nat \<Rightarrow> real" where
  "cell s1 s2 i j =
     (if i = 0 then real j
      else if j = 0 then real i
      else
        let v1 = min (cell s1 s2 (i - 1) j + 1)
                   (min (cell s1 s2 i (j - 1) + 1) (cell s1 s2 (i - 1) (j - 1) + cell_cost s1 s2 i j));
            v2 = (if transposed s1 s2 i j
                  then min v1 (cell s1 s2 (i - 2) (j - 2) + cell_cost s1 s2 i j) else v1)
        in if at_block i j
           then min v2 (cell s1 s2 (i - 3) (j - 3) + block_cost s1 s2 i j) else v2)"
  by pat_completeness auto
termination
  by (relation "measure (\<lambda>(s1, s2, i, j). i + j)") (auto simp add: transposed_def at_block_def)

declare cell.simps [simp del]

definition wf_matrix :: "nat \<Rightarrow> nat \<Rightarrow> matrix \<Rightarrow> bool" where
  "wf_matrix n1 n2 m = (length m = n1 + 1 \<and> (\<forall>r \<in> set m. length r = n2 + 1))"

definition cell_value :: "string \<Rightarrow> string \<Rightarrow> nat \<Rightarrow> nat \<Rightarrow> (nat \<Rightarrow> nat \<Rightarrow> real) \<Rightarrow> real" where
  "cell_value s1 s2 i j rd =
     (let v1 = min (rd (i - 1) j + 1)
                 (min (rd i (j - 1) + 1) (rd (i - 1) (j - 1) + cell_cost s1 s2 i j));
          v2 = (if transposed s1 s2 i j
                then min v1 (rd (i - 2) (j - 2) + cell_cost s1 s2 i j) else v1)
      in if at_block i j
         then min v2 (rd (i - 3) (j - 3) + block_cost s1 s2 i j) else v2)"

definition filled :: "string \<Rightarrow> string \<Rightarrow> nat \<Rightarrow> nat \<Rightarrow> matrix \<Rightarrow> bool" where
  "filled s1 s2 i l m =
     (wf_matrix (length s1) (length s2) m
      \<and> (\<forall>i' j'. i' \<le> length s1 \<longrightarrow> j' \<le> length s2 \<longrightarrow>
            (i' = 0 \<or> j' = 0 \<or> i' < i \<or> (i' = i \<and> j' < l)) \<longrightarrow>
            mget m i' j' = cell s1 s2 i' j'))"

section \<open>RelevanceScorer and ScoreCombiner\<close>

definition calculateRelevanceScore :: "real \<Rightarrow> nat \<Rightarrow> nat \<Rightarrow> real" where
  "calculateRelevanceScore distance targetLength queryLength =
     (if distance = 0 then 1.0
      else
        let maxLength = max targetLength queryLength
        in if maxLength = 0 then 0
           else
             let normalizedDistance = distance / real maxLength;
                 relevanceScore = exp (- 2 * normalizedDistance);
                 lengthBonus = real queryLength / real maxLength
             in min 1.0 (relevanceScore * (1 + lengthBonus * 0.2)))"

text \<open>
  A JavaScript number that may have left the finite ones. Signed zeros are not modelled;
  the only zero divisor of the source is \<open>Math.log(1)\<close>, which is \<open>+0\<close>.
\<close>

datatype jsnum = Fin real | PosInf | NegInf | NaN

text \<open>\<open>a / b\<close> for finite operands, a zero \<open>b\<close> being \<open>+0\<close>.\<close>

definition js_div :: "real \<Rightarrow> real \<Rightarrow> jsnum" where
  "js_div a b =
     (if b \<noteq> 0 then Fin (a / b)
      else if a > 0 then PosInf else if a < 0 then NegInf else NaN)"

text \<open>\<open>x * c\<close> for a finite \<open>c > 0\<close>.\<close>

fun js_scale :: "jsnum \<Rightarrow> real \<Rightarrow> jsnum" where
  "js_scale (Fin r) c = Fin (r * c)"
| "js_scale PosInf c = PosInf"
| "js_scale NegInf c = NegInf"
| "js_scale NaN c = NaN"

text \<open>\<open>Math.max(0, x)\<close>: \<open>NaN\<close> if \<open>x\<close> is.\<close>

fun js_max0 :: "jsnum \<Rightarrow> jsnum" where
  "js_max0 (Fin r) = Fin (max 0 r)"
| "js_max0 PosInf = PosInf"
| "js_max0 NegInf = Fin 0"
| "js_max0 NaN = NaN"

fun js_sub :: "jsnum \<Rightarrow> jsnum \<Rightarrow> jsnum" where
  "js_sub (Fin a) (Fin b) = Fin (a - b)"
| "js_sub NaN y = NaN"
| "js_sub x NaN = NaN"
| "js_sub PosInf PosInf = NaN"
| "js_sub NegInf NegInf = NaN"
| "js_sub PosInf y = PosInf"
| "js_sub NegInf y = NegInf"
| "js_sub (Fin a) PosInf = NegInf"
| "js_sub (Fin a) NegInf = PosInf"

fun js_abs :: "jsnum \<Rightarrow> jsnum" where
  "js_abs (Fin r) = Fin \<bar>r\<bar>"
| "js_abs PosInf = PosInf"
| "js_abs NegInf = PosInf"
| "js_abs NaN = NaN"

text \<open>\<open>x > y\<close>, \<open>x >= y\<close> and \<open>x <= y\<close>: false as soon as one side is \<open>NaN\<close>.\<close>

fun js_gt :: "jsnum \<Rightarrow> jsnum \<Rightarrow> bool" where
  "js_gt (Fin a) (Fin b) = (a > b)"
| "js_gt NaN y = False"
| "js_gt x NaN = False"
| "js_gt PosInf PosInf = False"
| "js_gt PosInf y = True"
| "js_gt NegInf y = False"
| "js_gt (Fin a) PosInf = False"
| "js_gt (Fin a) NegInf = True"

definition js_ge :: "jsnum \<Rightarrow> jsnum \<Rightarrow> bool" where
  "js_ge x y = (x \<noteq> NaN \<and> y \<noteq> NaN \<and> (js_gt x y \<or> x = y))"

definition js_le :: "jsnum \<Rightarrow> jsnum \<Rightarrow> bool" where
  "js_le x y = js_ge y x"

definition calculateFinalScore :: "real \<Rightarrow> nat \<Rightarrow> nat \<Rightarrow> jsnum" where
  "calculateFinalScore totalScore matchCount queryLength =
     (let finalScore0 = totalScore;
          matchMultiplier = 1 + (real matchCount * 0.1);
          finalScore1 = finalScore0 * matchMultiplier;
          queryNormalizer = ln (real queryLength + 1);
          finalScore2 = js_div finalScore1 queryNormalizer;
          finalScore3 = (if matchCount > 2 then js_scale finalScore2 1.2 else finalScore2)
      in js_max0 finalScore3)"

section \<open>FieldAggregator\<close>

text \<open>The white space and line terminators of ECMAScript among the code units below 256:
  TAB, LF, VT, FF, CR, SP and NBSP.\<close>

definition isSpace :: "char \<Rightarrow> bool" where
  "isSpace c = ((of_char c :: nat) \<in> {9, 10, 11, 12, 13, 32, 160})"

definition trim :: "string \<Rightarrow> string" where
  "trim s = rev (dropWhile isSpace (rev (dropWhile isSpace s)))"

text \<open>
  \<open>s.split(re)\<close> for a regular expression without groups that matches no empty string.
  The matcher gives the length of the match that starts at the head of its argument,
  0 when there is none. \<open>cur\<close> is the piece read since the last separator.
\<close>

function regex_split_from :: "(string \<Rightarrow> nat) \<Rightarrow> string \<Rightarrow> string \<Rightarrow> string list" where
  "regex_split_from m cur [] = [cur]"
| "regex_split_from m cur (c # cs) =
     (if m (c # cs) > 0 then cur # regex_split_from m [] (drop (m (c # cs)) (c # cs))
      else regex_split_from m (cur @ [c]) cs)"
  by pat_completeness auto
termination
  by (relation "measure (\<lambda>(m, cur, s). length s)") auto

definition regex_split :: "(string \<Rightarrow> nat) \<Rightarrow> string \<Rightarrow> string list" where
  "regex_split m s = regex_split_from m [] s"

text \<open>
  The source writes the separator as the literal \<^verbatim>\<open>/\\s+/\<close>. In a regular expression
  literal the two backslashes are an escaped backslash, so the pattern is: one backslash
  (code unit 0x5C), then one or more letters \<open>s\<close>.
\<close>

definition match_backslash_s :: "string \<Rightarrow> nat" where
  "match_backslash_s s =
     (case s of
        c # d # rest \<Rightarrow>
          if c = CHR 0x5C \<and> d = CHR ''s''
          then 2 + length (takeWhile (\<lambda>x. x = CHR ''s'') rest) else 0
      | _ \<Rightarrow> 0)"

definition split_words :: "string \<Rightarrow> string list" where
  "split_words s = regex_split match_backslash_s s"

record category =
  category_name :: string

record product =
  name :: string
  description :: "string option"
  price :: string
  sku :: "string option"
  tags :: "string list option"
  Category :: "category option"

text \<open>The inner loops of the name analysis: \<open>i\<close> runs over the even positions below
  \<open>nameWord.length - 2\<close>, \<open>j\<close> from \<open>i + 3\<close> to \<open>min(i + 5, nameWord.length)\<close>.\<close>

definition word_relevance :: "string \<Rightarrow> string \<Rightarrow> real" where
  \<comment> \<open>the relevance of a word or a window of a word: the query lowercased, nothing trimmed\<close>
  "word_relevance query word =
     calculateRelevanceScore
       (calculateLevenshteinDistance (Some (toLowerCase query)) (Some word))
       (length word) (length query)"

definition name_substring_step :: "string \<Rightarrow> string \<Rightarrow> nat \<Rightarrow> nat \<Rightarrow> real \<Rightarrow> real" where
  "name_substring_step query nameWord i j totalRelevanceScore =
     (let nameSubstring = substring nameWord i j;
          nameSubRelevance = word_relevance query nameSubstring
      in totalRelevanceScore + nameSubRelevance * 0.8)"

definition name_word_step :: "string \<Rightarrow> string \<Rightarrow> real \<Rightarrow> real" where
  "name_word_step query nameWord totalRelevanceScore =
     (let nameWordRelevance = word_relevance query nameWord;
          total1 = totalRelevanceScore + nameWordRelevance * 2
      in if length nameWord > 4
         then fold (\<lambda>i t.
                let maxJ = min (i + 5) (length nameWord)
                in fold (name_substring_step query nameWord i) [i + 3..<maxJ + 1] t)
              (filter (\<lambda>i. i mod 2 = 0) [0..<length nameWord - 2]) total1
         else total1)"

text \<open>The state of the scan of one product: \<open>(totalRelevanceScore, matchCount)\<close>.\<close>

type_synonym agg = "real \<times> nat"

definition add_probe :: "real \<Rightarrow> real \<Rightarrow> real \<Rightarrow> agg \<Rightarrow> agg" where
  \<comment> \<open>\<open>total += relevance * weight; if (relevance > threshold) matchCount++\<close>\<close>
  "add_probe relevance weight threshold st =
     (fst st + relevance * weight, if relevance > threshold then snd st + 1 else snd st)"

definition desc_word_step :: "string \<Rightarrow> string \<Rightarrow> agg \<Rightarrow> agg" where
  "desc_word_step query word st =
     (if length word > 3
      then
        let wordRelevance = word_relevance query word;
            st1 = add_probe wordRelevance 0.5 0.4 st
        in if length word > 5
           then
             let midpoint = length word div 2;
                 sub = substring word 0 (midpoint + 2);
                 subRelevance = word_relevance query sub
             in (fst st1 + subRelevance * 0.1, snd st1)
           else st1
      else st)"

text \<open>The relevance of a whole field: both sides lowercased and trimmed for the distance,
  the lengths taken from the untrimmed field and query.\<close>

definition field_relevance :: "string \<Rightarrow> string \<Rightarrow> real" where
  "field_relevance query field =
     calculateRelevanceScore
       (calculateLevenshteinDistance (Some (trim (toLowerCase query)))
          (Some (trim (toLowerCase field))))
       (length field) (length query)"

definition name_stage :: "string \<Rightarrow> product \<Rightarrow> agg \<Rightarrow> agg" where
  "name_stage query p st =
     (let nameRelevance = field_relevance query (name p);
          st1 = add_probe nameRelevance 3 0.3 st;
          nameWords = split_words (toLowerCase (name p))
      in (fold (name_word_step query) nameWords (fst st1), snd st1))"

definition description_stage :: "string \<Rightarrow> product \<Rightarrow> agg \<Rightarrow> agg" where
  "description_stage query p st =
     (case description p of
        None \<Rightarrow> st
      | Some d \<Rightarrow>
          if length d > 0
          then
            let descRelevance = field_relevance query d;
                st1 = add_probe descRelevance 1.5 0.2 st;
                descWords = split_words (toLowerCase d);
                importantWords = take 5 descWords
            in fold (desc_word_step query) importantWords st1
          else st)"

definition category_stage :: "string \<Rightarrow> product \<Rightarrow> agg \<Rightarrow> agg" where
  "category_stage query p st =
     (case Category p of
        None \<Rightarrow> st
      | Some c \<Rightarrow>
          if category_name c \<noteq> []
          then add_probe (field_relevance query (category_name c)) 1 0.3 st
          else st)"

definition sku_stage :: "string \<Rightarrow> product \<Rightarrow> agg \<Rightarrow> agg" where
  "sku_stage query p st =
     (case sku p of
        None \<Rightarrow> st
      | Some k \<Rightarrow> if k \<noteq> [] then add_probe (field_relevance query k) 2 0.4 st else st)"

definition tags_stage :: "string \<Rightarrow> product \<Rightarrow> agg \<Rightarrow> agg" where
  "tags_stage query p st =
     (case tags p of
        None \<Rightarrow> st
      | Some ts \<Rightarrow> fold (\<lambda>tag. add_probe (field_relevance query tag) 0.8 0.4) ts st)"

definition aggregate :: "string \<Rightarrow> product \<Rightarrow> agg" where
  "aggregate query p =
     tags_stage query p
       (sku_stage query p
          (category_stage query p
             (description_stage query p
                (name_stage query p (0, 0)))))"

section \<open>Ranker and SearchService\<close>

text \<open>A kept product with the two values the source stores in its \<open>dataValues\<close>. The
  relevance breakdown and the quality check stored beside them are diagnostics that no
  later step reads; they are left out.\<close>

record scored =
  scored_product :: product
  searchScore :: jsnum
  matchCount :: nat

definition score_product :: "string \<Rightarrow> product \<Rightarrow> scored" where
  "score_product query p =
     (let st = aggregate query p
      in \<lparr>scored_product = p,
          searchScore = calculateFinalScore (fst st) (snd st) (length query),
          matchCount = snd st\<rparr>)"

definition kept :: "scored \<Rightarrow> bool" where
  "kept r = (js_gt (searchScore r) (Fin 0.1) \<or> matchCount r > 0)"

text \<open>The comparator handed to \<open>results.sort\<close>. \<open>localeCompare\<close> belongs to the engine's
  collation and is a parameter.\<close>

definition comparator :: "(string \<Rightarrow> string \<Rightarrow> int) \<Rightarrow> scored \<Rightarrow> scored \<Rightarrow> jsnum" where
  "comparator localeCompare a b =
     (if js_gt (js_abs (js_sub (searchScore a) (searchScore b))) (Fin 0.01)
      then js_sub (searchScore b) (searchScore a)
      else if matchCount a \<noteq> matchCount b
      then Fin (real (matchCount b) - real (matchCount a))
      else Fin (real_of_int (localeCompare (name (scored_product a)) (name (scored_product b)))))"

text \<open>
  \<open>Array.prototype.sort\<close> is the engine's. It is modelled as a stable insertion sort: an
  element goes before the first element that the comparator does not put it after (a
  comparator value above 0 means "after"). For a comparator that is no consistent ordering
  of the elements, ECMAScript leaves the order to the engine.
\<close>

fun sort_insert :: "('a \<Rightarrow> 'a \<Rightarrow> jsnum) \<Rightarrow> 'a \<Rightarrow> 'a list \<Rightarrow> 'a list" where
  "sort_insert cmp x [] = [x]"
| "sort_insert cmp x (y # ys) =
     (if js_gt (cmp x y) (Fin 0) then y # sort_insert cmp x ys else x # y # ys)"

definition js_sort :: "('a \<Rightarrow> 'a \<Rightarrow> jsnum) \<Rightarrow> 'a list \<Rightarrow> 'a list" where
  "js_sort cmp xs = foldr (sort_insert cmp) xs []"

definition fuzzy_results :: "(string \<Rightarrow> string \<Rightarrow> int) \<Rightarrow> string \<Rightarrow> product list \<Rightarrow> scored list" where
  "fuzzy_results localeCompare query allProducts =
     js_sort (comparator localeCompare) (filter kept (map (score_product query) allProducts))"

definition simple_results :: "string \<Rightarrow> product list \<Rightarrow> product list" where
  "simple_results query allProducts =
     filter (\<lambda>p. str_includes (toLowerCase (name p)) (toLowerCase query)
                \<or> (case description p of
                      None \<Rightarrow> False
                    | Some d \<Rightarrow> d \<noteq> [] \<and> str_includes (toLowerCase d) (toLowerCase query)))
       allProducts"

text \<open>
  \<open>parseFloat\<close>: leading white space is skipped, then the longest prefix that is a
  decimal literal is read (sign, \<open>Infinity\<close> or digits with an optional fraction and an
  optional exponent); \<open>NaN\<close> when there is no such prefix. The value is the exact
  decimal one: the rounding to a double, and with it the overflow of a huge exponent to
  \<open>Infinity\<close>, is not modelled.
\<close>

definition isDigit :: "char \<Rightarrow> bool" where
  "isDigit c = (48 \<le> (of_char c :: nat) \<and> (of_char c :: nat) \<le> 57)"

definition digits_value :: "string \<Rightarrow> nat" where
  "digits_value ds = foldl (\<lambda>acc c. 10 * acc + ((of_char c :: nat) - 48)) 0 ds"

text \<open>The exponent part: \<open>e\<close> or \<open>E\<close>, an optional sign and at least one digit; anything
  else after the mantissa is not part of the number.\<close>

definition exponent_part :: "string \<Rightarrow> int" where
  "exponent_part s =
     (case s of
        [] \<Rightarrow> 0
      | c # r \<Rightarrow>
          if c = CHR ''e'' \<or> c = CHR ''E''
          then if take 1 r = ''-'' then - int (digits_value (takeWhile isDigit (drop 1 r)))
               else if take 1 r = ''+'' then int (digits_value (takeWhile isDigit (drop 1 r)))
               else int (digits_value (takeWhile isDigit r))
          else 0)"

definition parseFloat :: "string \<Rightarrow> jsnum" where
  "parseFloat str =
     (let s = dropWhile isSpace str;
          neg = (take 1 s = ''-'');
          s1 = (if take 1 s = ''-'' \<or> take 1 s = ''+'' then drop 1 s else s)
      in if take 8 s1 = ''Infinity'' then (if neg then NegInf else PosInf)
         else
           let intDigits = takeWhile isDigit s1;
               afterInt = dropWhile isDigit s1;
               hasDot = (take 1 afterInt = ''.'');
               fracDigits = (if hasDot then takeWhile isDigit (drop 1 afterInt) else []);
               afterFrac = (if hasDot then dropWhile isDigit (drop 1 afterInt) else afterInt)
           in if intDigits = [] \<and> fracDigits = [] then NaN
              else
                let mantissa = real (digits_value intDigits)
                               + real (digits_value fracDigits) / 10 ^ length fracDigits;
                    e = exponent_part afterFrac;
                    v = (if e \<ge> 0 then mantissa * 10 ^ nat e else mantissa / 10 ^ nat (- e))
                in Fin (if neg then - v else v))"

text \<open>The price filters. \<open>if (minPrice)\<close> holds for a present, non-empty string. The rows
  are products in the simple mode and scored products in the fuzzy mode; \<open>price_of\<close> reads
  the price of a row.\<close>

definition price_filter ::
  "('a \<Rightarrow> string) \<Rightarrow> string option \<Rightarrow> string option \<Rightarrow> 'a list \<Rightarrow> 'a list" where
  "price_filter price_of minPrice maxPrice results =
     (let results1 =
            (case minPrice of
               None \<Rightarrow> results
             | Some mn \<Rightarrow>
                 if mn \<noteq> []
                 then filter (\<lambda>p. js_ge (parseFloat (price_of p)) (parseFloat mn)) results
                 else results)
      in case maxPrice of
           None \<Rightarrow> results1
         | Some mx \<Rightarrow>
             if mx \<noteq> []
             then filter (\<lambda>p. js_le (parseFloat (price_of p)) (parseFloat mx)) results1
             else results1)"

text \<open>The response: the first 50 rows, the number of rows before the cut, the size of
  the catalog.\<close>

record 'a envelope =
  results :: "'a list"
  count :: nat
  totalProducts :: nat

definition respond :: "'a list \<Rightarrow> product list \<Rightarrow> 'a envelope" where
  "respond rs allProducts =
     \<lparr>results = take 50 rs, count = length rs, totalProducts = length allProducts\<rparr>"

text \<open>The search route with \<open>ENABLE_SMART_SEARCH\<close> set to \<open>true\<close>, and without.\<close>

definition search_smart ::
  "(string \<Rightarrow> string \<Rightarrow> int) \<Rightarrow> string \<Rightarrow> string option \<Rightarrow> string option \<Rightarrow> product list
     \<Rightarrow> scored envelope" where
  "search_smart localeCompare query minPrice maxPrice allProducts =
     respond
       (price_filter (\<lambda>r. price (scored_product r)) minPrice maxPrice
          (fuzzy_results localeCompare query allProducts))
       allProducts"

definition search_simple ::
  "string \<Rightarrow> string option \<Rightarrow> string option \<Rightarrow> product list \<Rightarrow> product envelope" where
  "search_simple query minPrice maxPrice allProducts =
     respond (price_filter price minPrice maxPrice (simple_results query allProducts))
       allProducts"

section \<open>The specification's readings, for comparison\<close>

text \<open>The separator of the name and description words as the specification words it: a
  run of white space, \<^verbatim>\<open>/\s+/\<close>.\<close>

definition match_whitespace :: "string \<Rightarrow> nat" where
  "match_whitespace s = length (takeWhile isSpace s)"

definition split_whitespace :: "string \<Rightarrow> string list" where
  "split_whitespace s = regex_split match_whitespace s"


section \<open>Notions used in the statements\<close>



text \<open>The tie-break property of a result list: two rows whose scores differ by at most
  0.01 and whose match counts are equal stand in the order of their names.\<close>

definition tied :: "scored \<Rightarrow> scored \<Rightarrow> bool" where
  "tied a b = js_le (js_abs (js_sub (searchScore a) (searchScore b))) (Fin 0.01)"

definition tie_break_respected :: "(string \<Rightarrow> string \<Rightarrow> int) \<Rightarrow> scored list \<Rightarrow> bool" where
  "tie_break_respected localeCompare out =
     list_all (\<lambda>i. list_all (\<lambda>j.
         tied (out ! i) (out ! j) \<and> matchCount (out ! i) = matchCount (out ! j)
         \<and> localeCompare (name (scored_product (out ! i))) (name (scored_product (out ! j))) < 0
         \<longrightarrow> i < j) [0..<length out]) [0..<length out]"

text \<open>\<open>comes_first cmp a b\<close>: the comparator does not put \<open>a\<close> after \<open>b\<close>. A comparator is
  consistent on a list when this relation is transitive on its elements.\<close>

definition comes_first :: "('a \<Rightarrow> 'a \<Rightarrow> jsnum) \<Rightarrow> 'a \<Rightarrow> 'a \<Rightarrow> bool" where
  "comes_first cmp a b = (\<not> js_gt (cmp a b) (Fin 0))"

definition consistent_on :: "('a \<Rightarrow> 'a \<Rightarrow> jsnum) \<Rightarrow> 'a list \<Rightarrow> bool" where
  "consistent_on cmp xs =
     list_all (\<lambda>a. list_all (\<lambda>b. list_all (\<lambda>c.
         comes_first cmp a b \<and> comes_first cmp b c \<longrightarrow> comes_first cmp a c) xs) xs) xs"

text \<open>The order of the code units, with the results \<open>-1\<close>, \<open>0\<close> and \<open>1\<close>: what
  \<open>localeCompare\<close> gives in the examples below, whose names are single lowercase letters.\<close>

fun codeunit_compare :: "string \<Rightarrow> string \<Rightarrow> int" where
  "codeunit_compare [] [] = 0"
| "codeunit_compare [] (y # ys) = - 1"
| "codeunit_compare (x # xs) [] = 1"
| "codeunit_compare (x # xs) (y # ys) =
     (if (of_char x :: nat) < of_char y then - 1
      else if (of_char y :: nat) < of_char x then 1
      else codeunit_compare xs ys)"

section \<open>Example inputs\<close>

definition laptop :: product where
  "laptop = \<lparr>name = ''Laptop'', description = None, price = ''10.00'', sku = None,
     tags = None, Category = None\<rparr>"


text \<open>Three products that differ in their names and in the length of a description made
  of the letter \<open>w\<close>, scored against the query "q": no letter matches, every distance is
  the length of the field, and every score is a rational multiple of
  \<open>exp (-2) / ln 2\<close>.\<close>

definition product_a :: product where
  "product_a = \<lparr>name = ''a'',
     description = Some ''wwwwwwwwwwwwwwwwwwwwwwwwwwwwwwwwwwwwwwww'',
     price = ''10.00'', sku = None, tags = None, Category = None\<rparr>"

definition product_b :: product where
  "product_b = \<lparr>name = ''b'', description = Some ''wwwwwwwwwwww'',
     price = ''10.00'', sku = None, tags = None, Category = None\<rparr>"

definition product_c :: product where
  "product_c = \<lparr>name = ''c'', description = Some ''wwwwww'',
     price = ''10.00'', sku = None, tags = None, Category = None\<rparr>"

definition unit_score :: real where "unit_score = exp (- 2) / ln 2"

definition scored_a :: scored where
  "scored_a = \<lparr>scored_product = product_a, searchScore = Fin (unit_score * (4461/550)), matchCount = 0\<rparr>"

definition scored_b :: scored where
  "scored_b = \<lparr>scored_product = product_b, searchScore = Fin (unit_score * (9763/1200)), matchCount = 0\<rparr>"

definition scored_c :: scored where
  "scored_c = \<lparr>scored_product = product_c, searchScore = Fin (unit_score * (3064/375)), matchCount = 0\<rparr>"


section \<open>Properties of the edit distance\<close>

text \<open>
  Claim C9. The distance of a string to itself is 0, and if one argument is the empty
  string or absent, the distance is the length of the other argument (0 for an absent one).
\<close>

theorem distance_self_and_empty:
  "calculateLevenshteinDistance (Some a) (Some a) = 0
   \<and> calculateLevenshteinDistance (Some []) (Some s) = real (length s)
   \<and> calculateLevenshteinDistance (Some s) (Some []) = real (length s)
   \<and> calculateLevenshteinDistance None (Some s) = real (length s)
   \<and> calculateLevenshteinDistance (Some s) None = real (length s)"
  by (simp add: calculateLevenshteinDistance_def falsy_def length_or_0_def)

subsection \<open>The matrix loops compute the recurrence\<close>

lemma wf_mset: "wf_matrix n1 n2 m \<Longrightarrow> wf_matrix n1 n2 (mset m i j v)"
proof -
  assume w: "wf_matrix n1 n2 m"
  show ?thesis
  proof (cases "i < length m")
    case True
    then have "m ! i \<in> set m" by simp
    with w have l: "length ((m ! i)[j := v]) = n2 + 1" by (simp add: wf_matrix_def)
    have "set (m[i := (m ! i)[j := v]]) \<subseteq> insert ((m ! i)[j := v]) (set m)"
      by (rule set_update_subset_insert)
    with w l show ?thesis by (auto simp add: wf_matrix_def mset_def)
  next
    case False
    then show ?thesis using w by (simp add: mset_def list_update_beyond)
  qed
qed

lemma mget_mset:
  "wf_matrix n1 n2 m \<Longrightarrow> i \<le> n1 \<Longrightarrow> j \<le> n2 \<Longrightarrow>
   mget (mset m i j v) i' j' = (if i' = i \<and> j' = j then v else mget m i' j')"
proof -
  assume w: "wf_matrix n1 n2 m" and i: "i \<le> n1" and j: "j \<le> n2"
  from w i have il: "i < length m" by (simp add: wf_matrix_def)
  then have "m ! i \<in> set m" by simp
  with w j have jl: "j < length (m ! i)" by (simp add: wf_matrix_def)
  show ?thesis
    using il jl by (auto simp add: mget_def mset_def nth_list_update)
qed

lemma mset_mset:
  "mset (mset m i j a) i j b = mset m i j b"
  by (cases "i < length m") (simp_all add: mset_def list_update_beyond)

lemma cell_unfold:
  "0 < i \<Longrightarrow> 0 < j \<Longrightarrow> cell s1 s2 i j = cell_value s1 s2 i j (cell s1 s2)"
  by (subst cell.simps) (simp add: cell_value_def)

lemma fill_cell_eq:
  assumes "wf_matrix n1 n2 m" "0 < i" "i \<le> n1" "0 < j" "j \<le> n2"
  shows "fill_cell s1 s2 i j m = mset m i j (cell_value s1 s2 i j (mget m))"
proof -
  note w1 = wf_mset [OF assms(1)]
  note g0 = mget_mset [OF assms(1) assms(3) assms(5)]
  note g1 = mget_mset [OF w1 assms(3) assms(5)]
  have t: "transposed s1 s2 i j \<Longrightarrow> i - 2 \<noteq> i" unfolding transposed_def by linarith
  have b: "at_block i j \<Longrightarrow> i - 3 \<noteq> i" unfolding at_block_def by linarith
  have "fill_cell s1 s2 i j m =
     (let cost = cell_cost s1 s2 i j;
          deletion = mget m (i - 1) j + 1;
          insertion = mget m i (j - 1) + 1;
          substitution = mget m (i - 1) (j - 1) + cost;
          m1 = mset m i j (min deletion (min insertion substitution));
          m2 = (if transposed s1 s2 i j
                then mset m1 i j (min (mget m1 i j) (mget m1 (i - 2) (j - 2) + cost))
                else m1)
      in if at_block i j
         then let phoneticCost = block_cost s1 s2 i j
              in mset m2 i j (min (mget m2 i j) (mget m2 (i - 3) (j - 3) + phoneticCost))
         else m2)"
    by (simp only: fill_cell_def cell_cost_def transposed_def at_block_def block_cost_def)
  also have "\<dots> = mset m i j (cell_value s1 s2 i j (mget m))"
    using t b by (simp add: Let_def cell_value_def g0 g1 mset_mset)
  finally show ?thesis .
qed

lemma fold_upt_invariant:
  assumes "a \<le> b" and "P a x"
    and "\<And>k y. a \<le> k \<Longrightarrow> k < b \<Longrightarrow> P k y \<Longrightarrow> P (Suc k) (f k y)"
  shows "P b (fold f [a..<b] x)"
  using assms
proof (induction b)
  case 0
  then show ?case by simp
next
  case (Suc b)
  show ?case
  proof (cases "a = Suc b")
    case True
    with Suc.prems(2) show ?thesis by simp
  next
    case False
    with Suc.prems(1) have ab: "a \<le> b" by simp
    have "P b (fold f [a..<b] x)"
      using ab Suc.prems(2)
    proof (rule Suc.IH)
      fix k y
      assume "a \<le> k" "k < b" "P k y"
      then show "P (Suc k) (f k y)" using Suc.prems(3) [of k y] by simp
    qed
    then have "P (Suc b) (f b (fold f [a..<b] x))"
      using Suc.prems(3) [of b] ab by simp
    with ab show ?thesis by simp
  qed
qed

lemma cell_value_cong:
  assumes "0 < i" "0 < j"
    and "rd (i - 1) j = rd' (i - 1) j"
    and "rd i (j - 1) = rd' i (j - 1)"
    and "rd (i - 1) (j - 1) = rd' (i - 1) (j - 1)"
    and "rd (i - 2) (j - 2) = rd' (i - 2) (j - 2)"
    and "rd (i - 3) (j - 3) = rd' (i - 3) (j - 3)"
  shows "cell_value s1 s2 i j rd = cell_value s1 s2 i j rd'"
  unfolding cell_value_def Let_def assms(3-7) by (rule refl)

lemma filled_step:
  assumes f: "filled s1 s2 i j m" and i: "0 < i" "i \<le> length s1" and j: "0 < j" "j \<le> length s2"
  shows "filled s1 s2 i (Suc j) (fill_cell s1 s2 i j m)"
proof -
  from f have w: "wf_matrix (length s1) (length s2) m" by (simp add: filled_def)
  from f have old: "\<And>i' j'. i' \<le> length s1 \<Longrightarrow> j' \<le> length s2 \<Longrightarrow>
      (i' = 0 \<or> j' = 0 \<or> i' < i \<or> (i' = i \<and> j' < j)) \<Longrightarrow> mget m i' j' = cell s1 s2 i' j'"
    unfolding filled_def by blast
  have eq: "fill_cell s1 s2 i j m = mset m i j (cell_value s1 s2 i j (mget m))"
    using w i j by (rule fill_cell_eq)
  have "cell_value s1 s2 i j (mget m) = cell_value s1 s2 i j (cell s1 s2)"
    using i(1) j(1)
  proof (rule cell_value_cong)
    show "mget m (i - 1) j = cell s1 s2 (i - 1) j" using i j by (intro old) auto
    show "mget m i (j - 1) = cell s1 s2 i (j - 1)" using i j by (intro old) auto
    show "mget m (i - 1) (j - 1) = cell s1 s2 (i - 1) (j - 1)" using i j by (intro old) auto
    show "mget m (i - 2) (j - 2) = cell s1 s2 (i - 2) (j - 2)" using i j by (intro old) auto
    show "mget m (i - 3) (j - 3) = cell s1 s2 (i - 3) (j - 3)" using i j by (intro old) auto
  qed
  then have new: "cell_value s1 s2 i j (mget m) = cell s1 s2 i j"
    using i(1) j(1) by (simp add: cell_unfold)
  show ?thesis
    unfolding filled_def eq
  proof (intro conjI allI impI)
    show "wf_matrix (length s1) (length s2) (mset m i j (cell_value s1 s2 i j (mget m)))"
      using w by (rule wf_mset)
  next
    fix i' j'
    assume b: "i' \<le> length s1" "j' \<le> length s2"
      and r: "i' = 0 \<or> j' = 0 \<or> i' < i \<or> i' = i \<and> j' < Suc j"
    show "mget (mset m i j (cell_value s1 s2 i j (mget m))) i' j' = cell s1 s2 i' j'"
    proof (cases "i' = i \<and> j' = j")
      case True
      then show ?thesis using new by (simp add: mget_mset [OF w i(2) j(2)])
    next
      case False
      with r have "i' = 0 \<or> j' = 0 \<or> i' < i \<or> (i' = i \<and> j' < j)" by auto
      with b have "mget m i' j' = cell s1 s2 i' j'" by (intro old)
      with False show ?thesis by (auto simp add: mget_mset [OF w i(2) j(2)])
    qed
  qed
qed

lemma filled_row:
  assumes f: "filled s1 s2 i 1 m" and i: "0 < i" "i \<le> length s1"
  shows "filled s1 s2 (Suc i) 1 (fill_row s1 s2 i m)"
proof -
  have "filled s1 s2 i (length s2 + 1) (fold (fill_cell s1 s2 i) [1..<length s2 + 1] m)"
  proof (rule fold_upt_invariant [where P = "\<lambda>l. filled s1 s2 i l"])
    show "1 \<le> length s2 + 1" by simp
    show "filled s1 s2 i 1 m" by (rule f)
  next
    fix k y
    assume "1 \<le> k" "k < length s2 + 1" "filled s1 s2 i k y"
    then show "filled s1 s2 i (Suc k) (fill_cell s1 s2 i k y)"
      using i by (intro filled_step) simp_all
  qed
  then have F: "filled s1 s2 i (length s2 + 1) (fill_row s1 s2 i m)"
    by (simp only: fill_row_def)
  define m' where "m' = fill_row s1 s2 i m"
  from F have w: "wf_matrix (length s1) (length s2) m'"
    and c: "\<And>i' j'. i' \<le> length s1 \<Longrightarrow> j' \<le> length s2 \<Longrightarrow>
              (i' = 0 \<or> j' = 0 \<or> i' < i \<or> (i' = i \<and> j' < length s2 + 1)) \<Longrightarrow>
              mget m' i' j' = cell s1 s2 i' j'"
    unfolding m'_def filled_def by blast+
  have "filled s1 s2 (Suc i) 1 m'"
    unfolding filled_def
  proof (intro conjI allI impI)
    show "wf_matrix (length s1) (length s2) m'" by (rule w)
  next
    fix i' j'
    assume b: "i' \<le> length s1" "j' \<le> length s2"
      and r: "i' = 0 \<or> j' = 0 \<or> i' < Suc i \<or> i' = Suc i \<and> j' < 1"
    from r b have "i' = 0 \<or> j' = 0 \<or> i' < i \<or> (i' = i \<and> j' < length s2 + 1)"
      by auto
    with b show "mget m' i' j' = cell s1 s2 i' j'" by (intro c)
  qed
  then show ?thesis by (simp only: m'_def)
qed

lemma cell_border: "cell s1 s2 i 0 = real i" "cell s1 s2 0 j = real j"
  by (subst cell.simps, simp)+

lemma wf_replicate: "wf_matrix n1 n2 (replicate (n1 + 1) (replicate (n2 + 1) 0))"
  by (simp add: wf_matrix_def)

lemma init_matrix_filled: "filled s1 s2 1 1 (init_matrix (length s1) (length s2))"
proof -
  let ?n1 = "length s1" and ?n2 = "length s2"
  let ?m0 = "replicate (?n1 + 1) (replicate (?n2 + 1) (0::real))"
  let ?m1 = "fold (\<lambda>i m. mset m i 0 (real i)) [0..<?n1 + 1] ?m0"
  let ?m2 = "fold (\<lambda>j m. mset m 0 j (real j)) [0..<?n2 + 1] ?m1"
  have c: "wf_matrix ?n1 ?n2 ?m1 \<and> (\<forall>i' < ?n1 + 1. mget ?m1 i' 0 = real i')"
  proof (rule fold_upt_invariant
      [where P = "\<lambda>k m. wf_matrix ?n1 ?n2 m \<and> (\<forall>i' < k. mget m i' 0 = real i')"])
    show "0 \<le> ?n1 + 1" by simp
    show "wf_matrix ?n1 ?n2 ?m0 \<and> (\<forall>i'<0. mget ?m0 i' 0 = real i')"
      by (intro conjI, rule wf_replicate, simp)
  next
    fix k y
    assume k: "0 \<le> k" "k < ?n1 + 1"
      and P: "wf_matrix ?n1 ?n2 y \<and> (\<forall>i'<k. mget y i' 0 = real i')"
    then have kk: "k \<le> ?n1" by simp
    show "wf_matrix ?n1 ?n2 (mset y k 0 (real k))
          \<and> (\<forall>i'<Suc k. mget (mset y k 0 (real k)) i' 0 = real i')"
      using P by (auto simp add: wf_mset mget_mset [OF _ kk] less_Suc_eq)
  qed
  have r: "wf_matrix ?n1 ?n2 ?m2 \<and> (\<forall>i' \<le> ?n1. mget ?m2 i' 0 = real i')
           \<and> (\<forall>j' < ?n2 + 1. mget ?m2 0 j' = real j')"
  proof (rule fold_upt_invariant
      [where P = "\<lambda>k m. wf_matrix ?n1 ?n2 m \<and> (\<forall>i' \<le> ?n1. mget m i' 0 = real i')
                     \<and> (\<forall>j' < k. mget m 0 j' = real j')"])
    show "0 \<le> ?n2 + 1" by simp
    show "wf_matrix ?n1 ?n2 ?m1 \<and> (\<forall>i' \<le> ?n1. mget ?m1 i' 0 = real i')
          \<and> (\<forall>j'<0. mget ?m1 0 j' = real j')"
      using c by auto
  next
    fix k y
    assume k: "0 \<le> k" "k < ?n2 + 1"
      and P: "wf_matrix ?n1 ?n2 y \<and> (\<forall>i' \<le> ?n1. mget y i' 0 = real i')
              \<and> (\<forall>j'<k. mget y 0 j' = real j')"
    then have kk: "k \<le> ?n2" by simp
    have z: "0 \<le> ?n1" by simp
    show "wf_matrix ?n1 ?n2 (mset y 0 k (real k))
          \<and> (\<forall>i' \<le> ?n1. mget (mset y 0 k (real k)) i' 0 = real i')
          \<and> (\<forall>j'<Suc k. mget (mset y 0 k (real k)) 0 j' = real j')"
      using P by (auto simp add: wf_mset mget_mset [OF _ z kk] less_Suc_eq)
  qed
  have "init_matrix ?n1 ?n2 = ?m2" by (simp add: init_matrix_def Let_def)
  with r show ?thesis
    by (auto simp add: filled_def cell_border)
qed

lemma fill_matrix_filled: "filled s1 s2 (length s1 + 1) 1 (fill_matrix s1 s2)"
  unfolding fill_matrix_def
proof (rule fold_upt_invariant [where P = "\<lambda>i. filled s1 s2 i 1"])
  show "1 \<le> length s1 + 1" by simp
  show "filled s1 s2 1 1 (init_matrix (length s1) (length s2))" by (rule init_matrix_filled)
next
  fix k y
  assume "1 \<le> k" "k < length s1 + 1" "filled s1 s2 k 1 y"
  then show "filled s1 s2 (Suc k) 1 (fill_row s1 s2 k y)"
    by (intro filled_row) simp_all
qed

lemma variation_distance_cell:
  "variation_distance s1 s2 = cell s1 s2 (length s1) (length s2)"
  using fill_matrix_filled [of s1 s2]
  by (simp add: variation_distance_def filled_def)

subsection \<open>Symmetry and the upper bound\<close>

lemma cell_value_le_substitution:
  "cell_value s1 s2 i j rd \<le> rd (i - 1) (j - 1) + cell_cost s1 s2 i j"
  by (simp add: cell_value_def Let_def min_le_iff_disj)

lemma cell_cost_le_1: "cell_cost s1 s2 i j \<le> 1"
  by (simp add: cell_cost_def)

lemma cell_le_max: "cell s1 s2 i j \<le> real (max i j)"
proof (induction i arbitrary: j)
  case 0
  show ?case by (simp add: cell_border)
next
  case (Suc i)
  show ?case
  proof (cases j)
    case 0
    then show ?thesis by (simp add: cell_border)
  next
    case (Suc k)
    have "cell s1 s2 (Suc i) (Suc k) = cell_value s1 s2 (Suc i) (Suc k) (cell s1 s2)"
      by (rule cell_unfold) simp_all
    also have "\<dots> \<le> cell s1 s2 i k + cell_cost s1 s2 (Suc i) (Suc k)"
      using cell_value_le_substitution [of s1 s2 "Suc i" "Suc k" "cell s1 s2"] by simp
    also have "\<dots> \<le> real (max i k) + 1"
      using Suc.IH [of k] cell_cost_le_1 [of s1 s2 "Suc i" "Suc k"] by linarith
    finally show ?thesis using Suc by simp
  qed
qed

lemma keyboard_fold_swap:
  "fold (keyboard_row_step c2 c1) rows (b, a)
   = (snd (fold (keyboard_row_step c1 c2) rows (a, b)),
      fst (fold (keyboard_row_step c1 c2) rows (a, b)))"
proof (induction rows arbitrary: a b)
  case Nil
  show ?case by simp
next
  case (Cons r rows)
  have "keyboard_row_step c2 c1 r (b, a)
        = (snd (keyboard_row_step c1 c2 r (a, b)), fst (keyboard_row_step c1 c2 r (a, b)))"
    by (simp add: keyboard_row_step_def Let_def split: option.split)
  then show ?case
    using Cons.IH [of "snd (keyboard_row_step c1 c2 r (a, b))"
                      "fst (keyboard_row_step c1 c2 r (a, b))"]
    by simp
qed

lemma getKeyboardDistance_sym: "getKeyboardDistance c1 c2 = getKeyboardDistance c2 c1"
proof -
  obtain p q where pq: "fold (keyboard_row_step c1 c2) [0..<length keyboard] (None, None) = (p, q)"
    by (cases "fold (keyboard_row_step c1 c2) [0..<length keyboard] (None, None)")
  have "fold (keyboard_row_step c2 c1) [0..<length keyboard] (None, None) = (q, p)"
    using keyboard_fold_swap [of c2 c1 "[0..<length keyboard]" None None] pq by simp
  with pq show ?thesis
    by (auto simp add: getKeyboardDistance_def split: option.split)
qed

lemma phonetic_group_step_sym:
  "phonetic_group_step sub1 sub2 = phonetic_group_step sub2 sub1"
  by (intro ext) (auto simp add: phonetic_group_step_def Let_def)

lemma phonetic_char_step_sym:
  "phonetic_char_step sub1 sub2 = phonetic_char_step sub2 sub1"
  by (intro ext) (simp add: phonetic_char_step_def Let_def getKeyboardDistance_sym conj_commute)

lemma getPhoneticSimilarity_sym: "getPhoneticSimilarity sub1 sub2 = getPhoneticSimilarity sub2 sub1"
proof -
  have a: "\<bar>real (length sub1) - real (length sub2)\<bar> = \<bar>real (length sub2) - real (length sub1)\<bar>"
    by simp
  show ?thesis
    unfolding getPhoneticSimilarity_def Let_def
      phonetic_group_step_sym [of sub1 sub2] phonetic_char_step_sym [of sub1 sub2] a
    by (simp add: min.commute disj_commute)
qed

lemma cell_value_sym:
  assumes "rd (i - 1) j = rd' j (i - 1)"
    and "rd i (j - 1) = rd' (j - 1) i"
    and "rd (i - 1) (j - 1) = rd' (j - 1) (i - 1)"
    and "rd (i - 2) (j - 2) = rd' (j - 2) (i - 2)"
    and "rd (i - 3) (j - 3) = rd' (j - 3) (i - 3)"
  shows "cell_value s1 s2 i j rd = cell_value s2 s1 j i rd'"
proof -
  have c: "cell_cost s1 s2 i j = cell_cost s2 s1 j i"
    by (auto simp add: cell_cost_def)
  have t: "transposed s1 s2 i j = transposed s2 s1 j i"
    by (auto simp add: transposed_def)
  have b: "at_block i j = at_block j i"
    by (auto simp add: at_block_def)
  have p: "block_cost s1 s2 i j = block_cost s2 s1 j i"
    by (simp add: block_cost_def getPhoneticSimilarity_sym)
  have m: "min (rd' j (i - 1) + 1) (min (rd' (j - 1) i + 1) x)
           = min (rd' (j - 1) i + 1) (min (rd' j (i - 1) + 1) x)" for x
    by (simp add: min.left_commute)
  show ?thesis
    unfolding cell_value_def Let_def assms c t b p m by (rule refl)
qed

lemma cell_sym: "cell s1 s2 i j = cell s2 s1 j i"
proof (induction "i + j" arbitrary: i j rule: less_induct)
  case less
  show ?case
  proof (cases "i = 0 \<or> j = 0")
    case True
    then show ?thesis by (auto simp add: cell_border)
  next
    case False
    then have pos: "0 < i" "0 < j" by simp_all
    have "cell_value s1 s2 i j (cell s1 s2) = cell_value s2 s1 j i (cell s2 s1)"
    proof (rule cell_value_sym)
      show "cell s1 s2 (i - 1) j = cell s2 s1 j (i - 1)" using pos by (intro less) simp
      show "cell s1 s2 i (j - 1) = cell s2 s1 (j - 1) i" using pos by (intro less) simp
      show "cell s1 s2 (i - 1) (j - 1) = cell s2 s1 (j - 1) (i - 1)" using pos by (intro less) simp
      show "cell s1 s2 (i - 2) (j - 2) = cell s2 s1 (j - 2) (i - 2)" using pos by (intro less) simp
      show "cell s1 s2 (i - 3) (j - 3) = cell s2 s1 (j - 3) (i - 3)" using pos by (intro less) simp
    qed
    then show ?thesis using pos by (simp add: cell_unfold)
  qed
qed

lemma variation_distance_sym: "variation_distance s1 s2 = variation_distance s2 s1"
  by (simp add: variation_distance_cell cell_sym [of s1 s2])

lemma variation_distance_le: "variation_distance s1 s2 \<le> real (max (length s1) (length s2))"
  by (simp only: variation_distance_cell cell_le_max)

text \<open>
  Claim C5. The distance is symmetric in its two arguments: the guards, the three
  variations, the transposition test and the phonetic estimate all are.
\<close>

theorem distance_symmetric:
  "calculateLevenshteinDistance str1 str2 = calculateLevenshteinDistance str2 str1"
proof (cases "falsy str1 \<or> falsy str2")
  case True
  then show ?thesis by (auto simp add: calculateLevenshteinDistance_def max.commute)
next
  case False
  then obtain a b where ab: "str1 = Some a" "str2 = Some b"
    by (cases str1; cases str2) (auto simp add: falsy_def)
  show ?thesis
  proof (cases "a = b")
    case True
    with ab show ?thesis by simp
  next
    case ne: False
    then have "b \<noteq> a" by auto
    with ne False ab show ?thesis
      by (simp add: calculateLevenshteinDistance_def
          variation_distance_sym [of a b]
          variation_distance_sym [of "toLowerCase a" "toLowerCase b"]
          variation_distance_sym [of "stripNonAlnum a" "stripNonAlnum b"])
  qed
qed

text \<open>
  Claim C10. The distance is at most the larger of the two lengths: every cell \<open>(i, j)\<close>
  is at most the substitution value, hence at most \<open>max i j\<close>, and the transposition and
  phonetic adjustments only take minima.
\<close>

theorem distance_le_max_length:
  "calculateLevenshteinDistance str1 str2 \<le> real (max (length_or_0 str1) (length_or_0 str2))"
proof (cases "falsy str1 \<or> falsy str2")
  case True
  then show ?thesis by (auto simp add: calculateLevenshteinDistance_def)
next
  case False
  then obtain a b where ab: "str1 = Some a" "str2 = Some b"
    by (cases str1; cases str2) (auto simp add: falsy_def)
  show ?thesis
  proof (cases "a = b")
    case True
    with ab show ?thesis by (simp add: calculateLevenshteinDistance_def)
  next
    case ne: False
    have "calculateLevenshteinDistance str1 str2 \<le> variation_distance a b"
      using ne False ab by (simp add: calculateLevenshteinDistance_def min_le_iff_disj)
    also have "\<dots> \<le> real (max (length a) (length b))" by (rule variation_distance_le)
    finally show ?thesis using ab by (simp add: length_or_0_def)
  qed
qed

section \<open>Properties of the relevance score\<close>

lemma relevance_le_1: "calculateRelevanceScore d L Q \<le> 1"
  by (simp add: calculateRelevanceScore_def Let_def)

lemma relevance_ge_0: "0 \<le> calculateRelevanceScore d L Q"
  by (simp add: calculateRelevanceScore_def Let_def)

lemma relevance_pos: "d = 0 \<or> 0 < max L Q \<Longrightarrow> 0 < calculateRelevanceScore d L Q"
  by (auto simp add: calculateRelevanceScore_def Let_def min_less_iff_conj add_pos_nonneg)

text \<open>
  Claim C6. For fixed lengths the relevance score does not increase when the distance
  (at least 0) increases, and the score of distance 0 is exactly 1.
\<close>

theorem relevance_monotone:
  "calculateRelevanceScore 0 L Q = 1
   \<and> (0 \<le> d1 \<longrightarrow> d1 \<le> d2 \<longrightarrow>
        calculateRelevanceScore d2 L Q \<le> calculateRelevanceScore d1 L Q)"
proof (intro conjI impI)
  show "calculateRelevanceScore 0 L Q = 1"
    by (simp add: calculateRelevanceScore_def)
next
  assume d1: "0 \<le> d1" and le: "d1 \<le> d2"
  show "calculateRelevanceScore d2 L Q \<le> calculateRelevanceScore d1 L Q"
  proof (cases "d1 = 0")
    case True
    then show ?thesis using relevance_le_1 [of d2 L Q]
      by (simp add: calculateRelevanceScore_def)
  next
    case False
    with d1 le have pos: "0 < d1" "0 < d2" by auto
    show ?thesis
    proof (cases "max L Q = 0")
      case True
      with pos show ?thesis by (simp add: calculateRelevanceScore_def)
    next
      case False
      then have M: "0 < real (max L Q)" by (simp add: max_def split: if_splits)
      have "d1 / real (max L Q) \<le> d2 / real (max L Q)"
        using le M by (simp add: divide_right_mono)
      then have e: "exp (- 2 * (d2 / real (max L Q))) \<le> exp (- 2 * (d1 / real (max L Q)))"
        by simp
      have f: "0 \<le> 1 + real Q / real (max L Q) * 0.2"
        by (simp add: add_nonneg_nonneg)
      have "exp (- 2 * (d2 / real (max L Q))) * (1 + real Q / real (max L Q) * 0.2)
            \<le> exp (- 2 * (d1 / real (max L Q))) * (1 + real Q / real (max L Q) * 0.2)"
        using e f by (rule mult_right_mono)
      then show ?thesis
        using pos False by (simp add: calculateRelevanceScore_def Let_def min_le_iff_disj)
    qed
  qed
qed

theorem relevance_monotone_witness:
  "calculateRelevanceScore 0 6 6 = 1
   \<and> (0::real) \<le> 1 \<and> (1::real) \<le> 2
   \<and> calculateRelevanceScore 2 6 6 \<le> calculateRelevanceScore 1 6 6"
  using relevance_monotone [of 6 6 1 2] by simp

text \<open>
  Claim C7. For the query "labtop" and the product name "Laptop", both lowercased and
  trimmed, the distance is 0.7 (the phonetic estimate of the windows "lab" and "lap"), and
  the relevance computed from it with both lengths 6 is above 0.6.
\<close>

theorem labtop_relevance:
  "calculateLevenshteinDistance (Some (trim (toLowerCase ''labtop'')))
     (Some (trim (toLowerCase ''Laptop''))) = 7 / 10
   \<and> calculateRelevanceScore
        (calculateLevenshteinDistance (Some (trim (toLowerCase ''labtop'')))
           (Some (trim (toLowerCase ''Laptop''))))
        (length ''Laptop'') (length ''labtop'') > 0.6"
proof -
  have d: "calculateLevenshteinDistance (Some (trim (toLowerCase ''labtop'')))
             (Some (trim (toLowerCase ''Laptop''))) = 7 / 10"
    by code_simp
  have "1 + (- 7 / 30) \<le> exp (- 7 / 30 :: real)" by (rule exp_ge_add_one_self)
  then have "(6 / 10 :: real) < exp (- (7 / 30)) * (6 / 5)" by simp
  then have r: "calculateRelevanceScore (7 / 10) 6 6 > 0.6"
    by (simp add: calculateRelevanceScore_def Let_def)
  have l: "length ''Laptop'' = 6" "length ''labtop'' = 6" by simp_all
  show ?thesis unfolding d l using r by simp
qed

section \<open>The aggregate of a product\<close>

lemma field_relevance_ge_0: "0 \<le> field_relevance q f"
  by (simp add: field_relevance_def relevance_ge_0)

lemma word_relevance_ge_0: "0 \<le> word_relevance q w"
  by (simp add: word_relevance_def relevance_ge_0)

lemma field_relevance_pos: "0 < field_relevance q f"
proof (cases "0 < max (length f) (length q)")
  case True
  then show ?thesis unfolding field_relevance_def by (intro relevance_pos) simp
next
  case False
  then have "f = []" "q = []" by auto
  then show ?thesis
    by (simp add: field_relevance_def trim_def toLowerCase_def calculateLevenshteinDistance_def
        falsy_def length_or_0_def calculateRelevanceScore_def)
qed

lemma fold_real_mono:
  fixes f :: "'a \<Rightarrow> real \<Rightarrow> real"
  assumes "\<And>x a. a \<le> f x a"
  shows "a \<le> fold f xs a"
proof (induction xs arbitrary: a)
  case Nil
  show ?case by simp
next
  case (Cons x xs)
  have "a \<le> f x a" by (rule assms)
  also have "\<dots> \<le> fold f xs (f x a)" by (rule Cons.IH)
  finally show ?case by simp
qed

lemma fold_agg_mono:
  fixes f :: "'a \<Rightarrow> agg \<Rightarrow> agg"
  assumes "\<And>x st. fst st \<le> fst (f x st)"
  shows "fst st \<le> fst (fold f xs st)"
proof (induction xs arbitrary: st)
  case Nil
  show ?case by simp
next
  case (Cons x xs)
  have "fst st \<le> fst (f x st)" by (rule assms)
  also have "\<dots> \<le> fst (fold f xs (f x st))" by (rule Cons.IH)
  finally show ?case by simp
qed

lemma name_substring_step_mono: "t \<le> name_substring_step q w i j t"
  by (simp add: name_substring_step_def Let_def word_relevance_ge_0)

lemma name_word_step_mono: "t \<le> name_word_step q w t"
proof -
  let ?t1 = "t + word_relevance q w * 2"
  have a: "t \<le> ?t1" by (simp add: word_relevance_ge_0)
  have b: "?t1 \<le> fold (\<lambda>i t. fold (name_substring_step q w i)
                               [i + 3..<min (i + 5) (length w) + 1] t)
              (filter (\<lambda>i. i mod 2 = 0) [0..<length w - 2]) ?t1"
    by (rule fold_real_mono) (rule fold_real_mono, rule name_substring_step_mono)
  show ?thesis
    using a b by (simp add: name_word_step_def Let_def)
qed

lemma add_probe_fst: "fst (add_probe r w th st) = fst st + r * w"
  by (simp add: add_probe_def)

lemma name_stage_lower: "fst st + field_relevance q (name p) * 3 \<le> fst (name_stage q p st)"
  by (simp add: name_stage_def Let_def add_probe_fst fold_real_mono name_word_step_mono)

lemma desc_word_step_mono: "fst st \<le> fst (desc_word_step q w st)"
  by (simp add: desc_word_step_def Let_def add_probe_fst word_relevance_ge_0)

lemma description_stage_mono: "fst st \<le> fst (description_stage q p st)"
proof -
  have "fst st \<le> fst (fold (desc_word_step q) ws (add_probe (field_relevance q d) 1.5 0.2 st))"
    for ws d
  proof -
    have "fst st \<le> fst (add_probe (field_relevance q d) 1.5 0.2 st)"
      by (simp add: add_probe_fst field_relevance_ge_0)
    also have "\<dots> \<le> fst (fold (desc_word_step q) ws
                             (add_probe (field_relevance q d) 1.5 0.2 st))"
      by (rule fold_agg_mono) (rule desc_word_step_mono)
    finally show ?thesis .
  qed
  then show ?thesis
    by (simp add: description_stage_def Let_def split: option.split)
qed

lemma category_stage_mono: "fst st \<le> fst (category_stage q p st)"
  by (simp add: category_stage_def add_probe_fst field_relevance_ge_0 split: option.split)

lemma sku_stage_mono: "fst st \<le> fst (sku_stage q p st)"
  by (simp add: sku_stage_def add_probe_fst field_relevance_ge_0 split: option.split)

lemma tags_stage_mono: "fst st \<le> fst (tags_stage q p st)"
proof (cases "tags p")
  case None
  then show ?thesis by (simp add: tags_stage_def)
next
  case (Some ts)
  have "fst st \<le> fst (fold (\<lambda>tag. add_probe (field_relevance q tag) 0.8 0.4) ts st)"
    by (rule fold_agg_mono) (simp add: add_probe_fst field_relevance_ge_0)
  with Some show ?thesis by (simp add: tags_stage_def)
qed

lemma aggregate_total_pos: "0 < fst (aggregate q p)"
proof -
  have "0 < field_relevance q (name p) * 3"
    using field_relevance_pos [of q "name p"] by simp
  also have "\<dots> \<le> fst (name_stage q p (0, 0))"
    using name_stage_lower [of "(0, 0)" q p] by simp
  also have "\<dots> \<le> fst (description_stage q p (name_stage q p (0, 0)))"
    by (rule description_stage_mono)
  also have "\<dots> \<le> fst (category_stage q p (description_stage q p (name_stage q p (0, 0))))"
    by (rule category_stage_mono)
  also have "\<dots> \<le> fst (sku_stage q p (category_stage q p
                          (description_stage q p (name_stage q p (0, 0)))))"
    by (rule sku_stage_mono)
  also have "\<dots> \<le> fst (aggregate q p)"
    unfolding aggregate_def by (rule tags_stage_mono)
  finally show ?thesis .
qed

section \<open>The final score of an empty query\<close>

lemma final_score_zero_length:
  "calculateFinalScore t mc 0 = (if 0 < t then PosInf else if t < 0 then Fin 0 else NaN)"
proof -
  have m: "0 < 1 + real mc * 0.1" by (simp add: add_pos_nonneg)
  have "0 < t \<Longrightarrow> 0 < t * (1 + real mc * 0.1)" using m by simp
  moreover have "t < 0 \<Longrightarrow> t * (1 + real mc * 0.1) < 0" using m by (simp add: mult_neg_pos)
  ultimately show ?thesis
    by (auto simp add: calculateFinalScore_def js_div_def Let_def)
qed

text \<open>
  Claim C1 says that a query of length 0 gives the final score 0. The source divides by
  \<open>Math.log(0 + 1)\<close>, which is 0, without a special case: for a total score of 1 and no
  match the result is \<open>Infinity\<close>, for a total of 0 it is \<open>NaN\<close>, and every product scored
  against the empty query gets \<open>Infinity\<close>, since its name always contributes a positive
  relevance.
\<close>

theorem empty_query_score_not_zero:
  "calculateFinalScore 1 0 0 = PosInf
   \<and> calculateFinalScore 0 0 0 = NaN
   \<and> searchScore (score_product [] p) = PosInf"
  using aggregate_total_pos [of "[]" p]
  by (simp add: final_score_zero_length score_product_def Let_def)

section \<open>The words of a name\<close>

lemma split_from_no_backslash:
  "CHR 0x5C \<notin> set s \<Longrightarrow> regex_split_from match_backslash_s cur s = [cur @ s]"
proof (induction s arbitrary: cur)
  case Nil
  show ?case by simp
next
  case (Cons c cs)
  then have "match_backslash_s (c # cs) = 0"
    by (auto simp add: match_backslash_s_def split: list.split)
  with Cons show ?case by simp
qed

lemma split_words_no_backslash: "CHR 0x5C \<notin> set s \<Longrightarrow> split_words s = [s]"
  by (simp add: split_words_def regex_split_def split_from_no_backslash)

text \<open>
  Claim C4 says that the name is split at white space and every word is probed. The
  separator of the source matches a backslash followed by letters \<open>s\<close>, not white space:
  the name "Laptop Stand" is probed as the one word "laptop stand", where the split at
  white space gives "laptop" and "stand".
\<close>

theorem name_words_of_laptop_stand:
  "split_words (toLowerCase ''Laptop Stand'') = [''laptop stand'']
   \<and> split_whitespace (toLowerCase ''Laptop Stand'') = [''laptop'', ''stand'']"
  by code_simp

section \<open>The price filter\<close>

lemma js_ge_NaN: "\<not> js_ge x NaN" "\<not> js_le x NaN" "\<not> js_ge NaN x" "\<not> js_le NaN x"
  by (simp_all add: js_ge_def js_le_def)

text \<open>
  Claim C2, as amended. A bound that is absent or the empty string is ignored, whatever
  the other bound is: with both bounds absent or empty every row is kept, and with one of
  them absent or empty the result is exactly the filter of the other. A present bound
  keeps the rows whose price passes the comparison with it. A non-empty bound that
  \<open>parseFloat\<close> does not read as a number is compared as \<open>NaN\<close>, and no price passes a
  comparison with \<open>NaN\<close>: the filter then removes every row, without an error.
\<close>

theorem malformed_bound_excludes_all:
  "(mn \<noteq> [] \<and> parseFloat mn = NaN \<longrightarrow> price_filter price_of (Some mn) maxPrice rs = [])
   \<and> (mx \<noteq> [] \<and> parseFloat mx = NaN \<longrightarrow> price_filter price_of minPrice (Some mx) rs = [])
   \<and> (falsy minPrice \<and> falsy maxPrice \<longrightarrow> price_filter price_of minPrice maxPrice rs = rs)
   \<and> (falsy minPrice \<and> hi \<noteq> [] \<longrightarrow>
        price_filter price_of minPrice (Some hi) rs
        = filter (\<lambda>p. js_le (parseFloat (price_of p)) (parseFloat hi)) rs)
   \<and> (lo \<noteq> [] \<and> falsy maxPrice \<longrightarrow>
        price_filter price_of (Some lo) maxPrice rs
        = filter (\<lambda>p. js_ge (parseFloat (price_of p)) (parseFloat lo)) rs)
   \<and> (lo \<noteq> [] \<and> hi \<noteq> [] \<longrightarrow>
        price_filter price_of (Some lo) (Some hi) rs
        = filter (\<lambda>p. js_ge (parseFloat (price_of p)) (parseFloat lo)
                       \<and> js_le (parseFloat (price_of p)) (parseFloat hi)) rs)"
  by (auto simp add: price_filter_def Let_def js_ge_NaN falsy_def split: option.splits)

theorem malformed_bound_excludes_all_witness:
  "''abc'' \<noteq> [] \<and> parseFloat ''abc'' = NaN
   \<and> falsy None \<and> falsy (Some []) \<and> ''5'' \<noteq> [] \<and> ''20'' \<noteq> []
   \<and> price_filter price (Some ''abc'') (Some []) [laptop] = []
   \<and> price_filter price None (Some ''abc'') [laptop] = []
   \<and> price_filter price None (Some []) [laptop] = [laptop]
   \<and> price_filter price None (Some ''20'') [laptop] = [laptop]
   \<and> price_filter price (Some ''5'') (Some []) [laptop] = [laptop]
   \<and> price_filter price (Some ''5'') (Some ''20'') [laptop] = [laptop]"
proof -
  have n: "parseFloat ''abc'' = NaN" by code_simp
  have lo: "js_ge (parseFloat (price laptop)) (parseFloat ''5'')" by code_simp
  have hi: "js_le (parseFloat (price laptop)) (parseFloat ''20'')" by code_simp
  have f: "falsy None" "falsy (Some [])" by (simp_all add: falsy_def)
  show ?thesis
    using n lo hi f
      malformed_bound_excludes_all
        [of "''abc''" price "Some []" "[laptop]" "''abc''" None "''20''" "''5''"]
    by simp
qed

text \<open>
  Claim C2 as stated fails: with the one product "Laptop" in the catalog and the empty
  query in the simple mode, the bound \<open>minPrice=abc\<close> empties the result, while the
  search without the bound returns the product.
\<close>

theorem malformed_bound_not_ignored:
  "parseFloat ''abc'' = NaN
   \<and> results (search_simple [] (Some ''abc'') None [laptop])
       \<noteq> results (search_simple [] None None [laptop])"
  by code_simp

section \<open>The match count\<close>

















section \<open>The order of the results\<close>

lemma js_abs_sub_commute: "js_abs (js_sub x y) = js_abs (js_sub y x)"
  by (cases x; cases y) simp_all

lemma js_sub_not_both_pos: "\<not> (js_gt (js_sub x y) (Fin 0) \<and> js_gt (js_sub y x) (Fin 0))"
  by (cases x; cases y) auto

lemma js_le_not_gt: "js_le x (Fin c) \<Longrightarrow> \<not> js_gt x (Fin c)"
  by (cases x) (auto simp add: js_le_def js_ge_def)

lemma comparator_total:
  assumes anti: "\<And>s t. (localeCompare s t < 0) = (0 < localeCompare t s)"
  shows "comes_first (comparator localeCompare) a b \<or> comes_first (comparator localeCompare) b a"
proof (cases "js_gt (js_abs (js_sub (searchScore a) (searchScore b))) (Fin 0.01)")
  case True
  then have "js_gt (js_abs (js_sub (searchScore b) (searchScore a))) (Fin 0.01)"
    by (simp add: js_abs_sub_commute [of "searchScore b"])
  with True show ?thesis
    using js_sub_not_both_pos [of "searchScore a" "searchScore b"]
    by (auto simp add: comes_first_def comparator_def)
next
  case False
  then have F: "\<not> js_gt (js_abs (js_sub (searchScore b) (searchScore a))) (Fin 0.01)"
    by (simp add: js_abs_sub_commute [of "searchScore b"])
  show ?thesis
  proof (cases "matchCount a = matchCount b")
    case True
    have "\<not> (0 < localeCompare (name (scored_product a)) (name (scored_product b))
             \<and> 0 < localeCompare (name (scored_product b)) (name (scored_product a)))"
      using anti [of "name (scored_product a)" "name (scored_product b)"] by auto
    with True False F show ?thesis
      by (auto simp add: comes_first_def comparator_def)
  next
    case ne: False
    with False F show ?thesis
      by (auto simp add: comes_first_def comparator_def)
  qed
qed

lemma set_sort_insert: "set (sort_insert cmp x ys) = insert x (set ys)"
  by (induction ys) auto

lemma sorted_sort_insert:
  assumes total: "\<And>a b. comes_first cmp a b \<or> comes_first cmp b a"
    and trans: "\<And>a b c. a \<in> insert x (set ys) \<Longrightarrow> b \<in> insert x (set ys) \<Longrightarrow>
                  c \<in> insert x (set ys) \<Longrightarrow>
                  comes_first cmp a b \<Longrightarrow> comes_first cmp b c \<Longrightarrow> comes_first cmp a c"
    and sorted: "sorted_wrt (comes_first cmp) ys"
  shows "sorted_wrt (comes_first cmp) (sort_insert cmp x ys)"
  using trans sorted
proof (induction ys)
  case Nil
  show ?case by simp
next
  case (Cons y ys)
  show ?case
  proof (cases "js_gt (cmp x y) (Fin 0)")
    case True
    then have "\<not> comes_first cmp x y" by (simp add: comes_first_def)
    with total [of x y] have yx: "comes_first cmp y x" by simp
    have "sorted_wrt (comes_first cmp) (sort_insert cmp x ys)"
    proof (rule Cons.IH)
      fix a b c
      assume "a \<in> insert x (set ys)" "b \<in> insert x (set ys)" "c \<in> insert x (set ys)"
        "comes_first cmp a b" "comes_first cmp b c"
      then show "comes_first cmp a c" by (intro Cons.prems(1) [of a b c]) auto
    next
      show "sorted_wrt (comes_first cmp) ys" using Cons.prems(2) by simp
    qed
    moreover have "\<forall>z \<in> set (sort_insert cmp x ys). comes_first cmp y z"
      using yx Cons.prems(2) by (auto simp add: set_sort_insert)
    ultimately show ?thesis using True by simp
  next
    case False
    then have xy: "comes_first cmp x y" by (simp add: comes_first_def)
    have "\<forall>z \<in> set ys. comes_first cmp x z"
    proof
      fix z
      assume z: "z \<in> set ys"
      with Cons.prems(2) have "comes_first cmp y z" by simp
      with xy z show "comes_first cmp x z" by (intro Cons.prems(1) [of x y z]) auto
    qed
    with xy Cons.prems(2) False show ?thesis by simp
  qed
qed

lemma set_js_sort: "set (js_sort cmp xs) = set xs"
  by (induction xs) (simp_all add: js_sort_def set_sort_insert)

lemma sorted_js_sort:
  assumes total: "\<And>a b. comes_first cmp a b \<or> comes_first cmp b a"
    and trans: "\<And>a b c. a \<in> set xs \<Longrightarrow> b \<in> set xs \<Longrightarrow> c \<in> set xs \<Longrightarrow>
                  comes_first cmp a b \<Longrightarrow> comes_first cmp b c \<Longrightarrow> comes_first cmp a c"
  shows "sorted_wrt (comes_first cmp) (js_sort cmp xs)"
  using trans
proof (induction xs)
  case Nil
  show ?case by (simp add: js_sort_def)
next
  case (Cons x xs)
  have s: "sorted_wrt (comes_first cmp) (js_sort cmp xs)"
  proof (rule Cons.IH)
    fix a b c
    assume "a \<in> set xs" "b \<in> set xs" "c \<in> set xs" "comes_first cmp a b" "comes_first cmp b c"
    then show "comes_first cmp a c" by (intro Cons.prems [of a b c]) auto
  qed
  have "sorted_wrt (comes_first cmp) (sort_insert cmp x (js_sort cmp xs))"
    using total
  proof (rule sorted_sort_insert)
    fix a b c
    assume "a \<in> insert x (set (js_sort cmp xs))" "b \<in> insert x (set (js_sort cmp xs))"
      "c \<in> insert x (set (js_sort cmp xs))" "comes_first cmp a b" "comes_first cmp b c"
    then show "comes_first cmp a c"
      by (intro Cons.prems [of a b c]) (auto simp add: set_js_sort)
  next
    show "sorted_wrt (comes_first cmp) (js_sort cmp xs)" by (rule s)
  qed
  then show ?case by (simp add: js_sort_def)
qed

lemma consistent_on_iff:
  "consistent_on cmp xs =
     (\<forall>a \<in> set xs. \<forall>b \<in> set xs. \<forall>c \<in> set xs.
        comes_first cmp a b \<and> comes_first cmp b c \<longrightarrow> comes_first cmp a c)"
  by (simp add: consistent_on_def list_all_iff)

lemma sorted_wrt_price_filter:
  "sorted_wrt R rs \<Longrightarrow> sorted_wrt R (price_filter price_of minPrice maxPrice rs)"
  by (auto simp add: price_filter_def Let_def sorted_wrt_filter split: option.split)

lemma sorted_tie_break:
  assumes anti: "\<And>s t. (localeCompare s t < 0) = (0 < localeCompare t s)"
    and sorted: "sorted_wrt (comes_first (comparator localeCompare)) out"
  shows "tie_break_respected localeCompare out"
  unfolding tie_break_respected_def list_all_iff
proof (intro ballI impI)
  fix i j
  assume i: "i \<in> set [0..<length out]" and j: "j \<in> set [0..<length out]"
    and h: "tied (out ! i) (out ! j) \<and> matchCount (out ! i) = matchCount (out ! j)
            \<and> localeCompare (name (scored_product (out ! i))) (name (scored_product (out ! j))) < 0"
  let ?a = "out ! i" and ?b = "out ! j"
  from h have lt: "localeCompare (name (scored_product ?a)) (name (scored_product ?b)) < 0" by simp
  then have gt: "0 < localeCompare (name (scored_product ?b)) (name (scored_product ?a))"
    using anti by simp
  from h have "\<not> js_gt (js_abs (js_sub (searchScore ?a) (searchScore ?b))) (Fin 0.01)"
    unfolding tied_def by (intro js_le_not_gt) simp
  then have nt: "\<not> js_gt (js_abs (js_sub (searchScore ?b) (searchScore ?a))) (Fin 0.01)"
    by (simp add: js_abs_sub_commute [of "searchScore ?b"])
  have ba: "\<not> comes_first (comparator localeCompare) ?b ?a"
    using nt h gt by (simp add: comes_first_def comparator_def)
  show "i < j"
  proof (rule ccontr)
    assume "\<not> i < j"
    then have "j < i \<or> j = i" by auto
    then show False
    proof
      assume "j < i"
      with sorted i have "comes_first (comparator localeCompare) ?b ?a"
        by (simp add: sorted_wrt_iff_nth_less)
      with ba show False by simp
    next
      assume "j = i"
      with lt gt show False by simp
    qed
  qed
qed

text \<open>
  Claim C8, as amended. If the comparator is a consistent ordering of the kept products
  (and \<open>localeCompare\<close> is antisymmetric), then in the output of the fuzzy search any two
  rows whose scores differ by at most 0.01 and whose match counts are equal stand in the
  order of their names.
\<close>

theorem tie_break_when_consistent:
  assumes anti: "\<And>s t. (localeCompare s t < 0) = (0 < localeCompare t s)"
    and cons: "consistent_on (comparator localeCompare)
                 (filter kept (map (score_product query) allProducts))"
  shows "tie_break_respected localeCompare
           (results (search_smart localeCompare query minPrice maxPrice allProducts))"
proof -
  let ?K = "filter kept (map (score_product query) allProducts)"
  have "sorted_wrt (comes_first (comparator localeCompare)) (js_sort (comparator localeCompare) ?K)"
  proof (rule sorted_js_sort)
    fix a b
    show "comes_first (comparator localeCompare) a b \<or> comes_first (comparator localeCompare) b a"
      using anti by (rule comparator_total)
  next
    fix a b c
    assume "a \<in> set ?K" "b \<in> set ?K" "c \<in> set ?K"
      "comes_first (comparator localeCompare) a b" "comes_first (comparator localeCompare) b c"
    with cons show "comes_first (comparator localeCompare) a c"
      unfolding consistent_on_iff by blast
  qed
  then have "sorted_wrt (comes_first (comparator localeCompare))
               (results (search_smart localeCompare query minPrice maxPrice allProducts))"
    by (simp add: search_smart_def respond_def fuzzy_results_def sorted_wrt_price_filter
        sorted_wrt_take)
  with anti show ?thesis by (rule sorted_tie_break)
qed

lemma codeunit_compare_anti: "(codeunit_compare s t < 0) = (0 < codeunit_compare t s)"
  by (induction s t rule: codeunit_compare.induct) auto

lemma exp2_le_8: "exp (2::real) \<le> 8"
proof -
  have "exp (1/16 :: real) \<le> 1 + 1/16 + (1/16)\<^sup>2" by (rule exp_bound) simp_all
  then have a: "exp (1/16 :: real) \<le> 273/256" by (simp add: power2_eq_square)
  have "exp (2::real) = exp (of_nat 32 * (1/16))" by simp
  also have "\<dots> = exp (1/16) ^ 32" by (rule exp_of_nat_mult)
  also have "\<dots> \<le> (273/256) ^ 32" using a by (intro power_mono) simp_all
  also have "\<dots> \<le> (8::real)" by (simp add: power_divide)
  finally show ?thesis .
qed

lemma exp2_ge: "(596/100::real) \<le> exp 2"
proof -
  have a: "(5/4::real) \<le> exp (1/4)" using exp_ge_add_one_self [of "1/4::real"] by simp
  have "(596/100::real) \<le> (5/4) ^ 8" by (simp add: power_divide)
  also have "\<dots> \<le> exp (1/4) ^ 8" using a by (intro power_mono) simp_all
  also have "\<dots> = exp (of_nat 8 * (1/4))" by (rule exp_of_nat_mult [symmetric])
  also have "\<dots> = exp (2::real)" by simp
  finally show ?thesis .
qed

lemma ln2_le: "ln (2::real) \<le> 74/100"
proof -
  have a: "(1 + 37/800 :: real) \<le> exp (37/800)" by (rule exp_ge_add_one_self)
  have "(2::real) \<le> (837/800) ^ 16" by (simp add: power_divide)
  then have "(2::real) \<le> (1 + 37/800) ^ 16" by simp
  also have "\<dots> \<le> exp (37/800) ^ 16" using a by (intro power_mono) simp_all
  also have "\<dots> = exp (of_nat 16 * (37/800))" by (rule exp_of_nat_mult [symmetric])
  also have "\<dots> = exp (74/100 :: real)" by simp
  finally have "ln (2::real) \<le> ln (exp (74/100))" by (subst ln_le_cancel_iff) simp_all
  then show ?thesis by simp
qed

lemma ln2_ge: "(6/10::real) \<le> ln 2"
proof -
  have "exp (3/20 :: real) \<le> 1 + 3/20 + (3/20)\<^sup>2" by (rule exp_bound) simp_all
  then have a: "exp (3/20 :: real) \<le> 469/400" by (simp add: power2_eq_square)
  have "exp (6/10::real) = exp (of_nat 4 * (3/20))" by simp
  also have "\<dots> = exp (3/20) ^ 4" by (rule exp_of_nat_mult)
  also have "\<dots> \<le> (469/400) ^ 4" using a by (intro power_mono) simp_all
  also have "\<dots> \<le> (2::real)" by (simp add: power_divide)
  finally have "ln (exp (6/10::real)) \<le> ln 2" by (subst ln_le_cancel_iff) simp_all
  then show ?thesis by simp
qed

lemma unit_score_bounds: "100 / 592 \<le> unit_score" "unit_score \<le> 1000 / 3576"
proof -
  have p: "0 < exp (2::real)" "0 < ln (2::real)" by simp_all
  have e: "unit_score = 1 / (exp 2 * ln 2)" by (simp add: unit_score_def exp_minus divide_simps)
  have u: "exp 2 * ln (2::real) \<le> 8 * (74/100)"
    using exp2_le_8 ln2_le p by (intro mult_mono) simp_all
  have l: "(596/100) * (6/10) \<le> exp 2 * ln (2::real)"
    using exp2_ge ln2_ge by (intro mult_mono) simp_all
  have pp: "0 < exp 2 * ln (2::real)" using p by simp
  show "100 / 592 \<le> unit_score" unfolding e using u pp by (simp add: field_simps)
  show "unit_score \<le> 1000 / 3576" unfolding e using l pp by (simp add: field_simps)
qed

lemma exp_m2_bounds: "1/8 \<le> exp (- 2 :: real)" "exp (- 2 :: real) \<le> 100/596"
proof -
  have p: "0 < exp (2::real)" by simp
  have e: "exp (- 2 :: real) = 1 / exp 2" by (simp add: exp_minus divide_simps)
  show "1/8 \<le> exp (- 2 :: real)" unfolding e using exp2_le_8 p by (simp add: field_simps)
  show "exp (- 2 :: real) \<le> 100/596" unfolding e using exp2_ge p by (simp add: field_simps)
qed

lemma far_relevance:
  assumes d: "d = real L" and Q: "Q \<le> L" and pos: "0 < L"
  shows "calculateRelevanceScore d L Q = exp (- 2) * (1 + real Q / real L * 0.2)"
proof -
  have q: "real Q / real L \<le> 1" using Q pos by simp
  have "exp (- 2) * (1 + real Q / real L * 0.2) \<le> (100/596) * (1 + 1 * 0.2)"
    using exp_m2_bounds(2) q by (intro mult_mono) simp_all
  also have "\<dots> \<le> 1" by simp
  finally have le: "exp (- 2) * (1 + real Q / real L * 0.2) \<le> 1" .
  have m: "max L Q = L" using Q by simp
  have n: "d / real L = 1" "d \<noteq> 0" using d pos by simp_all
  show ?thesis
    unfolding calculateRelevanceScore_def Let_def m
    using n pos le by simp
qed

lemma field_relevance_far:
  assumes "calculateLevenshteinDistance (Some (trim (toLowerCase q))) (Some (trim (toLowerCase f)))
           = real (length f)"
    and "length q \<le> length f" and "0 < length f"
  shows "field_relevance q f = exp (- 2) * (1 + real (length q) / real (length f) * 0.2)"
  unfolding field_relevance_def
  using assms by (rule far_relevance)

lemma word_relevance_far:
  assumes "calculateLevenshteinDistance (Some (toLowerCase q)) (Some w) = real (length w)"
    and "length q \<le> length w" and "0 < length w"
  shows "word_relevance q w = exp (- 2) * (1 + real (length q) / real (length w) * 0.2)"
  unfolding word_relevance_def
  using assms by (rule far_relevance)

lemma field_rel_a: "field_relevance ''q'' ''a'' = exp (- 2) * (6/5)"
proof -
  have "calculateLevenshteinDistance (Some (trim (toLowerCase ''q'')))
          (Some (trim (toLowerCase ''a''))) = real (length ''a'')"
    by code_simp
  then show ?thesis
    using field_relevance_far [of "''q''" "''a''"] by simp
qed

lemma word_rel_a: "word_relevance ''q'' ''a'' = exp (- 2) * (6/5)"
proof -
  have "calculateLevenshteinDistance (Some (toLowerCase ''q'')) (Some ''a'')
        = real (length ''a'')"
    by code_simp
  then show ?thesis
    using word_relevance_far [of "''q''" "''a''"] by simp
qed

lemma field_rel_b: "field_relevance ''q'' ''b'' = exp (- 2) * (6/5)"
proof -
  have "calculateLevenshteinDistance (Some (trim (toLowerCase ''q'')))
          (Some (trim (toLowerCase ''b''))) = real (length ''b'')"
    by code_simp
  then show ?thesis
    using field_relevance_far [of "''q''" "''b''"] by simp
qed

lemma word_rel_b: "word_relevance ''q'' ''b'' = exp (- 2) * (6/5)"
proof -
  have "calculateLevenshteinDistance (Some (toLowerCase ''q'')) (Some ''b'')
        = real (length ''b'')"
    by code_simp
  then show ?thesis
    using word_relevance_far [of "''q''" "''b''"] by simp
qed

lemma field_rel_c: "field_relevance ''q'' ''c'' = exp (- 2) * (6/5)"
proof -
  have "calculateLevenshteinDistance (Some (trim (toLowerCase ''q'')))
          (Some (trim (toLowerCase ''c''))) = real (length ''c'')"
    by code_simp
  then show ?thesis
    using field_relevance_far [of "''q''" "''c''"] by simp
qed

lemma word_rel_c: "word_relevance ''q'' ''c'' = exp (- 2) * (6/5)"
proof -
  have "calculateLevenshteinDistance (Some (toLowerCase ''q'')) (Some ''c'')
        = real (length ''c'')"
    by code_simp
  then show ?thesis
    using word_relevance_far [of "''q''" "''c''"] by simp
qed

lemma field_rel_w6: "field_relevance ''q'' ''wwwwww'' = exp (- 2) * (31/30)"
proof -
  have "calculateLevenshteinDistance (Some (trim (toLowerCase ''q'')))
          (Some (trim (toLowerCase ''wwwwww''))) = real (length ''wwwwww'')"
    by code_simp
  then show ?thesis
    using field_relevance_far [of "''q''" "''wwwwww''"] by simp
qed

lemma word_rel_w6: "word_relevance ''q'' ''wwwwww'' = exp (- 2) * (31/30)"
proof -
  have "calculateLevenshteinDistance (Some (toLowerCase ''q'')) (Some ''wwwwww'')
        = real (length ''wwwwww'')"
    by code_simp
  then show ?thesis
    using word_relevance_far [of "''q''" "''wwwwww''"] by simp
qed

lemma word_rel_w5: "word_relevance ''q'' ''wwwww'' = exp (- 2) * (26/25)"
proof -
  have "calculateLevenshteinDistance (Some (toLowerCase ''q'')) (Some ''wwwww'')
        = real (length ''wwwww'')"
    by code_simp
  then show ?thesis
    using word_relevance_far [of "''q''" "''wwwww''"] by simp
qed

lemma field_rel_w12: "field_relevance ''q'' ''wwwwwwwwwwww'' = exp (- 2) * (61/60)"
proof -
  have "calculateLevenshteinDistance (Some (trim (toLowerCase ''q'')))
          (Some (trim (toLowerCase ''wwwwwwwwwwww''))) = real (length ''wwwwwwwwwwww'')"
    by code_simp
  then show ?thesis
    using field_relevance_far [of "''q''" "''wwwwwwwwwwww''"] by simp
qed

lemma word_rel_w12: "word_relevance ''q'' ''wwwwwwwwwwww'' = exp (- 2) * (61/60)"
proof -
  have "calculateLevenshteinDistance (Some (toLowerCase ''q'')) (Some ''wwwwwwwwwwww'')
        = real (length ''wwwwwwwwwwww'')"
    by code_simp
  then show ?thesis
    using word_relevance_far [of "''q''" "''wwwwwwwwwwww''"] by simp
qed

lemma word_rel_w8: "word_relevance ''q'' ''wwwwwwww'' = exp (- 2) * (41/40)"
proof -
  have "calculateLevenshteinDistance (Some (toLowerCase ''q'')) (Some ''wwwwwwww'')
        = real (length ''wwwwwwww'')"
    by code_simp
  then show ?thesis
    using word_relevance_far [of "''q''" "''wwwwwwww''"] by simp
qed

lemma field_rel_w40: "field_relevance ''q'' ''wwwwwwwwwwwwwwwwwwwwwwwwwwwwwwwwwwwwwwww'' = exp (- 2) * (201/200)"
proof -
  have "calculateLevenshteinDistance (Some (trim (toLowerCase ''q'')))
          (Some (trim (toLowerCase ''wwwwwwwwwwwwwwwwwwwwwwwwwwwwwwwwwwwwwwww''))) = real (length ''wwwwwwwwwwwwwwwwwwwwwwwwwwwwwwwwwwwwwwww'')"
    by code_simp
  then show ?thesis
    using field_relevance_far [of "''q''" "''wwwwwwwwwwwwwwwwwwwwwwwwwwwwwwwwwwwwwwww''"] by simp
qed

lemma word_rel_w40: "word_relevance ''q'' ''wwwwwwwwwwwwwwwwwwwwwwwwwwwwwwwwwwwwwwww'' = exp (- 2) * (201/200)"
proof -
  have "calculateLevenshteinDistance (Some (toLowerCase ''q'')) (Some ''wwwwwwwwwwwwwwwwwwwwwwwwwwwwwwwwwwwwwwww'')
        = real (length ''wwwwwwwwwwwwwwwwwwwwwwwwwwwwwwwwwwwwwwww'')"
    by code_simp
  then show ?thesis
    using word_relevance_far [of "''q''" "''wwwwwwwwwwwwwwwwwwwwwwwwwwwwwwwwwwwwwwww''"] by simp
qed

lemma word_rel_w22: "word_relevance ''q'' ''wwwwwwwwwwwwwwwwwwwwww'' = exp (- 2) * (111/110)"
proof -
  have "calculateLevenshteinDistance (Some (toLowerCase ''q'')) (Some ''wwwwwwwwwwwwwwwwwwwwww'')
        = real (length ''wwwwwwwwwwwwwwwwwwwwww'')"
    by code_simp
  then show ?thesis
    using word_relevance_far [of "''q''" "''wwwwwwwwwwwwwwwwwwwwww''"] by simp
qed

lemma desc_word_w6:
  "desc_word_step ''q'' ''wwwwww'' st
   = (fst st + exp (- 2) * (31/30) * 0.5 + exp (- 2) * (26/25) * 0.1, snd st)"
proof -
  have sub: "substring ''wwwwww'' 0 (length ''wwwwww'' div 2 + 2) = ''wwwww''"
    by code_simp
  show ?thesis
    unfolding desc_word_step_def Let_def sub word_rel_w6 word_rel_w5 add_probe_def
    using exp_m2_bounds by simp
qed

lemma desc_word_w12:
  "desc_word_step ''q'' ''wwwwwwwwwwww'' st
   = (fst st + exp (- 2) * (61/60) * 0.5 + exp (- 2) * (41/40) * 0.1, snd st)"
proof -
  have sub: "substring ''wwwwwwwwwwww'' 0 (length ''wwwwwwwwwwww'' div 2 + 2) = ''wwwwwwww''"
    by code_simp
  show ?thesis
    unfolding desc_word_step_def Let_def sub word_rel_w12 word_rel_w8 add_probe_def
    using exp_m2_bounds by simp
qed

lemma desc_word_w40:
  "desc_word_step ''q'' ''wwwwwwwwwwwwwwwwwwwwwwwwwwwwwwwwwwwwwwww'' st
   = (fst st + exp (- 2) * (201/200) * 0.5 + exp (- 2) * (111/110) * 0.1, snd st)"
proof -
  have sub: "substring ''wwwwwwwwwwwwwwwwwwwwwwwwwwwwwwwwwwwwwwww'' 0 (length ''wwwwwwwwwwwwwwwwwwwwwwwwwwwwwwwwwwwwwwww'' div 2 + 2) = ''wwwwwwwwwwwwwwwwwwwwww''"
    by code_simp
  show ?thesis
    unfolding desc_word_step_def Let_def sub word_rel_w40 word_rel_w22 add_probe_def
    using exp_m2_bounds by simp
qed

lemma words_a: "split_words (toLowerCase ''a'') = [''a'']"
  "split_words (toLowerCase ''wwwwwwwwwwwwwwwwwwwwwwwwwwwwwwwwwwwwwwww'') = [''wwwwwwwwwwwwwwwwwwwwwwwwwwwwwwwwwwwwwwww'']"
  by code_simp+

lemma aggregate_a: "aggregate ''q'' product_a = (exp (- 2) * (4461/550), 0)"
  using exp_m2_bounds
  by (simp add: aggregate_def product_a_def name_stage_def description_stage_def
      category_stage_def sku_stage_def tags_stage_def name_word_step_def desc_word_w40
      add_probe_def Let_def words_a field_rel_w40 field_rel_a word_rel_a)

lemma words_b: "split_words (toLowerCase ''b'') = [''b'']"
  "split_words (toLowerCase ''wwwwwwwwwwww'') = [''wwwwwwwwwwww'']"
  by code_simp+

lemma aggregate_b: "aggregate ''q'' product_b = (exp (- 2) * (9763/1200), 0)"
  using exp_m2_bounds
  by (simp add: aggregate_def product_b_def name_stage_def description_stage_def
      category_stage_def sku_stage_def tags_stage_def name_word_step_def desc_word_w12
      add_probe_def Let_def words_b field_rel_w12 field_rel_b word_rel_b)

lemma words_c: "split_words (toLowerCase ''c'') = [''c'']"
  "split_words (toLowerCase ''wwwwww'') = [''wwwwww'']"
  by code_simp+

lemma aggregate_c: "aggregate ''q'' product_c = (exp (- 2) * (3064/375), 0)"
  using exp_m2_bounds
  by (simp add: aggregate_def product_c_def name_stage_def description_stage_def
      category_stage_def sku_stage_def tags_stage_def name_word_step_def desc_word_w6
      add_probe_def Let_def words_c field_rel_w6 field_rel_c word_rel_c)

lemma final_score_q:
  "0 \<le> c \<Longrightarrow> calculateFinalScore (exp (- 2) * c) 0 1 = Fin (unit_score * c)"
proof -
  assume c: "0 \<le> c"
  have l: "0 < ln (2::real)" using ln2_ge by simp
  have "0 \<le> exp (- 2) * c / ln 2" using c l by simp
  then show ?thesis
    using l by (simp add: calculateFinalScore_def js_div_def Let_def unit_score_def max_def)
qed

lemma score_a: "score_product ''q'' product_a = scored_a"
proof -
  have f: "calculateFinalScore (exp (- 2) * (4461/550)) 0 1 = Fin (unit_score * (4461/550))"
    by (rule final_score_q) simp
  have l: "length ''q'' = 1" by simp
  show ?thesis
    unfolding score_product_def Let_def aggregate_a fst_conv snd_conv l f scored_a_def
    by (rule refl)
qed

lemma kept_a: "kept scored_a"
  using unit_score_bounds by (simp add: kept_def scored_a_def)

lemma score_b: "score_product ''q'' product_b = scored_b"
proof -
  have f: "calculateFinalScore (exp (- 2) * (9763/1200)) 0 1 = Fin (unit_score * (9763/1200))"
    by (rule final_score_q) simp
  have l: "length ''q'' = 1" by simp
  show ?thesis
    unfolding score_product_def Let_def aggregate_b fst_conv snd_conv l f scored_b_def
    by (rule refl)
qed

lemma kept_b: "kept scored_b"
  using unit_score_bounds by (simp add: kept_def scored_b_def)

lemma score_c: "score_product ''q'' product_c = scored_c"
proof -
  have f: "calculateFinalScore (exp (- 2) * (3064/375)) 0 1 = Fin (unit_score * (3064/375))"
    by (rule final_score_q) simp
  have l: "length ''q'' = 1" by simp
  show ?thesis
    unfolding score_product_def Let_def aggregate_c fst_conv snd_conv l f scored_c_def
    by (rule refl)
qed

lemma kept_c: "kept scored_c"
  using unit_score_bounds by (simp add: kept_def scored_c_def)

lemma cmp_a_b: "\<not> js_gt (comparator codeunit_compare scored_a scored_b) (Fin 0)"
  using unit_score_bounds
  by (simp add: comparator_def scored_a_def scored_b_def product_a_def product_b_def)

lemma cmp_b_a: "js_gt (comparator codeunit_compare scored_b scored_a) (Fin 0)"
  using unit_score_bounds
  by (simp add: comparator_def scored_a_def scored_b_def product_a_def product_b_def)

lemma cmp_c_a: "\<not> js_gt (comparator codeunit_compare scored_c scored_a) (Fin 0)"
  using unit_score_bounds
  by (simp add: comparator_def scored_a_def scored_c_def product_a_def product_c_def)

lemma tied_b_c: "tied scored_b scored_c"
  using unit_score_bounds
  by (simp add: tied_def js_le_def js_ge_def scored_b_def scored_c_def)

lemma fuzzy_c_a_b:
  "results (search_smart codeunit_compare ''q'' None None [product_c, product_a, product_b])
   = [scored_c, scored_a, scored_b]"
  by (simp add: search_smart_def respond_def price_filter_def fuzzy_results_def js_sort_def
      score_a score_b score_c kept_a kept_b kept_c cmp_a_b cmp_c_a)

text \<open>
  Claim C8 as stated fails, because the tolerance of 0.01 is not transitive. For the
  catalog c, a, b the scores of c and b differ by less than 0.01, those of b and a too,
  but the score of c is more than 0.01 above that of a. The comparator puts c before a
  (score) and a before b (name), the sort leaves the order c, a, b, and b stands after c
  although the two are tied with equal match counts and "b" is the smaller name.
\<close>

theorem tie_break_violated:
  "results (search_smart codeunit_compare ''q'' None None [product_c, product_a, product_b])
     = [scored_c, scored_a, scored_b]
   \<and> tied scored_b scored_c
   \<and> matchCount scored_b = matchCount scored_c
   \<and> codeunit_compare (name (scored_product scored_b)) (name (scored_product scored_c)) < 0
   \<and> \<not> tie_break_respected codeunit_compare
         (results (search_smart codeunit_compare ''q'' None None
            [product_c, product_a, product_b]))"
proof -
  have m: "matchCount scored_b = matchCount scored_c"
    by (simp add: scored_b_def scored_c_def)
  have n: "codeunit_compare (name (scored_product scored_b)) (name (scored_product scored_c)) < 0"
    by (simp add: scored_b_def scored_c_def product_b_def product_c_def)
  have "\<not> tie_break_respected codeunit_compare [scored_c, scored_a, scored_b]"
  proof
    assume "tie_break_respected codeunit_compare [scored_c, scored_a, scored_b]"
    then have "tied scored_b scored_c \<and> matchCount scored_b = matchCount scored_c
               \<and> codeunit_compare (name (scored_product scored_b))
                    (name (scored_product scored_c)) < 0
               \<longrightarrow> (2::nat) < 0"
      unfolding tie_break_respected_def list_all_iff
      by (auto dest!: bspec [where x = 2] bspec [where x = 0])
    with m n tied_b_c show False by simp
  qed
  with m n tied_b_c fuzzy_c_a_b show ?thesis by simp
qed

text \<open>The amended claim at the catalog b, a: the two are tied and the output is a, b.\<close>

theorem tie_break_when_consistent_witness:
  "consistent_on (comparator codeunit_compare)
     (filter kept (map (score_product ''q'') [product_b, product_a]))
   \<and> tie_break_respected codeunit_compare
       (results (search_smart codeunit_compare ''q'' None None [product_b, product_a]))
   \<and> results (search_smart codeunit_compare ''q'' None None [product_b, product_a])
       = [scored_a, scored_b]"
proof -
  have aa: "\<not> js_gt (comparator codeunit_compare scored_a scored_a) (Fin 0)"
    by (simp add: comparator_def scored_a_def product_a_def)
  have bb: "\<not> js_gt (comparator codeunit_compare scored_b scored_b) (Fin 0)"
    by (simp add: comparator_def scored_b_def product_b_def)
  have cons: "consistent_on (comparator codeunit_compare)
     (filter kept (map (score_product ''q'') [product_b, product_a]))"
    by (simp add: consistent_on_def comes_first_def score_a score_b kept_a kept_b
        cmp_a_b cmp_b_a aa bb)
  have r: "results (search_smart codeunit_compare ''q'' None None [product_b, product_a])
           = [scored_a, scored_b]"
    by (simp add: search_smart_def respond_def price_filter_def fuzzy_results_def js_sort_def
        score_a score_b kept_a kept_b cmp_b_a)
  show ?thesis
    using cons r
      tie_break_when_consistent [of codeunit_compare "''q''" "[product_b, product_a]" None None,
        OF codeunit_compare_anti cons]
    by simp
qed

end
